theory Spec2Isabelle
  imports Main "HOL-Library.Word"
begin

unbundle bit_operations_syntax

section \<open>OSDB hashing of local files and HTTP resources (ziggy/lib/utils.go)\<close>

text \<open>
  The development embeds \<^verbatim>\<open>readRemoteChunks\<close>, \<^verbatim>\<open>readChunks\<close>, \<^verbatim>\<open>OSDBHashFile\<close>,
  \<^verbatim>\<open>readRemoteChunk\<close> and \<^verbatim>\<open>readChunk\<close> of \<^verbatim>\<open>utils.go\<close>.

  Conventions.
  \<^item> Go's \<^verbatim>\<open>int64\<close>, \<^verbatim>\<open>uint64\<close> and (on a 64-bit platform) \<^verbatim>\<open>int\<close> are 64-bit words:
    \<open>+\<close> and \<open>-\<close> wrap around, signed comparisons are \<open><s\<close> and \<open>\<le>s\<close>, \<open>sint\<close>
    reads the two's complement value. \<^verbatim>\<open>uint64(fileSize)\<close> and \<^verbatim>\<open>int(span.size)\<close> keep the
    bits and are the identity here.
  \<^item> A Go \<^verbatim>\<open>error\<close> is a value of the datatype \<open>error\<close>; a function that can fail
    returns \<open>Ok\<close>, \<open>Err\<close> or, where the Go runtime would abort, \<open>Panic\<close>.
  \<^item> The file system and the HTTP server are a \<open>world\<close> that the functions read.
    Every function returns, next to its result, the list of the effects it had
    (handles and response bodies acquired and released, requests sent, positioned reads).
\<close>

subsection \<open>Data\<close>

type_synonym byte = "8 word"
type_synonym int64 = "64 word"
type_synonym uint64 = "64 word"

text \<open>\<^verbatim>\<open>const OSDBChunkSize = 65536\<close>\<close>

definition OSDBChunkSize :: int64 where
  "OSDBChunkSize = 65536"

text \<open>\<^verbatim>\<open>type chunkInfo struct { offset int64; size int64 }\<close>.
  The field \<^verbatim>\<open>size\<close> is \<open>size'\<close> here, \<open>size\<close> being a constant of HOL.\<close>

record chunkInfo =
  offset :: int64
  size' :: int64

text \<open>
  The errors of the standard library that reach the caller: \<^verbatim>\<open>errors.New\<close> with its message
  (\<^verbatim>\<open>fmt.Errorf\<close> without \<^verbatim>\<open>%w\<close> is \<^verbatim>\<open>errors.New\<close> of the formatted message),
  \<^verbatim>\<open>*strconv.NumError\<close> with its cause, \<^verbatim>\<open>io.EOF\<close>, \<^verbatim>\<open>io.ErrUnexpectedEOF\<close>,
  the \<^verbatim>\<open>*fs.PathError\<close> of a positioned read at a negative offset, and the \<^verbatim>\<open>*url.Error\<close>
  of a request that cannot be built or sent.
\<close>

datatype num_cause = ErrSyntax | ErrRange

datatype error =
    ErrorsNew string
  | NumError num_cause
  | EOF
  | ErrUnexpectedEOF
  | PathError
  | URLError

datatype panic = IndexOutOfRange | SliceBoundsOutOfRange | MakesliceLenOutOfRange

datatype 'a result = Ok 'a | Err error | Panic panic

text \<open>The world. A file that \<^verbatim>\<open>os.Open\<close> can open has a \<^verbatim>\<open>Stat\<close> that succeeds or not,
  and its bytes. A response has the header map of \<^verbatim>\<open>http.Header\<close>
  (\<^verbatim>\<open>map[string][]string\<close>) and a body: the bytes it delivers, and whether the stream then
  ends in a transport error instead of the end of the stream.\<close>

record os_File =
  stat_ok :: bool
  content :: "byte list"

record response =
  header :: "string \<Rightarrow> string list option"
  body :: "byte list"
  body_fault :: bool

datatype request = Request (req_method: string) (req_url: string) (req_headers: "(string \<times> string) list")

record world =
  os_Open :: "string \<Rightarrow> os_File option"
  url_ok :: "string \<Rightarrow> bool"
  client_Do :: "request \<Rightarrow> response option"

datatype resource = FileHandle string | ResponseBody request

datatype event =
    Acquire resource
  | Release resource
  | Do request
  | PRead int64 nat

type_synonym 'a effect = "event list \<times> 'a result"

subsection \<open>The standard library functions the code calls\<close>

text \<open>\<^verbatim>\<open>strings.HasPrefix(s, prefix)\<close>:
  \<^verbatim>\<open>len(s) >= len(prefix) && s[:len(prefix)] == prefix\<close>.\<close>

definition HasPrefix :: "string \<Rightarrow> string \<Rightarrow> bool" where
  "HasPrefix s p = (length p \<le> length s \<and> take (length p) s = p)"

text \<open>Decimal digits of a natural number, most significant first.\<close>

fun digits10 :: "nat \<Rightarrow> string" where
  "digits10 n =
     (if n < 10 then [''0123456789'' ! n]
      else digits10 (n div 10) @ [''0123456789'' ! (n mod 10)])"

declare digits10.simps [simp del]

text \<open>\<^verbatim>\<open>strconv.Itoa\<close>, on the value of the \<^verbatim>\<open>int\<close>.\<close>

definition Itoa :: "int \<Rightarrow> string" where
  "Itoa i = (if i < 0 then CHR ''-'' # digits10 (nat (- i)) else digits10 (nat i))"

text \<open>
  \<^verbatim>\<open>strconv.ParseInt(s, 10, 64)\<close>. It takes an optional sign off and has
  \<^verbatim>\<open>ParseUint\<close> read the rest: the empty string and any character that is not a decimal
  digit are \<^verbatim>\<open>ErrSyntax\<close>; a value that leaves 64 bits is \<^verbatim>\<open>ErrRange\<close>, reported at
  the digit where it happens. The unsigned value must then fit the signed range
  (\<^verbatim>\<open>ErrRange\<close> otherwise). Every failure is a \<^verbatim>\<open>*NumError\<close>.
\<close>

definition digit_val :: "char \<Rightarrow> nat option" where
  "digit_val c =
     (let n = (of_char c :: nat) in if 48 \<le> n \<and> n \<le> 57 then Some (n - 48) else None)"

fun ParseUint_loop :: "nat \<Rightarrow> string \<Rightarrow> num_cause + nat" where
  "ParseUint_loop n [] = Inr n"
| "ParseUint_loop n (c # cs) =
     (case digit_val c of
        None \<Rightarrow> Inl ErrSyntax
      | Some d \<Rightarrow> if 2 ^ 64 \<le> n * 10 + d then Inl ErrRange else ParseUint_loop (n * 10 + d) cs)"

definition ParseInt :: "string \<Rightarrow> error + int64" where
  "ParseInt s =
     (if s = [] then Inl (NumError ErrSyntax)
      else
        let neg = (hd s = CHR ''-'');
            ds = (if hd s = CHR ''+'' \<or> hd s = CHR ''-'' then tl s else s)
        in if ds = [] then Inl (NumError ErrSyntax)
           else case ParseUint_loop 0 ds of
                  Inl cause \<Rightarrow> Inl (NumError cause)
                | Inr un \<Rightarrow>
                    if \<not> neg \<and> un \<ge> 2 ^ 63 then Inl (NumError ErrRange)
                    else if neg \<and> un > 2 ^ 63 then Inl (NumError ErrRange)
                    else Inr (if neg then - word_of_nat un else word_of_nat un))"

text \<open>\<^verbatim>\<open>fmt.Sprintf("%016x", v)\<close> for a \<^verbatim>\<open>uint64\<close>: the lowercase hexadecimal digits of
  the value, padded on the left with \<^verbatim>\<open>0\<close> to a width of 16.\<close>

fun hex_digits :: "nat \<Rightarrow> string" where
  "hex_digits n =
     (if n < 16 then [''0123456789abcdef'' ! n]
      else hex_digits (n div 16) @ [''0123456789abcdef'' ! (n mod 16)])"

declare hex_digits.simps [simp del]

definition Sprintf_016x :: "uint64 \<Rightarrow> string" where
  "Sprintf_016x v =
     (let s = hex_digits (unat v) in replicate (16 - length s) CHR ''0'' @ s)"

text \<open>\<^verbatim>\<open>binary.LittleEndian.Uint64(b)\<close> on eight bytes:
  \<^verbatim>\<open>uint64(b[0]) | uint64(b[1])<<8 | ... | uint64(b[7])<<56\<close>.\<close>

definition Uint64 :: "byte list \<Rightarrow> uint64" where
  "Uint64 b =
     (ucast (b ! 0) OR push_bit 8 (ucast (b ! 1)) OR push_bit 16 (ucast (b ! 2))
      OR push_bit 24 (ucast (b ! 3)) OR push_bit 32 (ucast (b ! 4)) OR push_bit 40 (ucast (b ! 5))
      OR push_bit 48 (ucast (b ! 6)) OR push_bit 56 (ucast (b ! 7)))"

text \<open>
  \<^verbatim>\<open>binary.Read(reader, binary.LittleEndian, &nums)\<close> for an array \<^verbatim>\<open>nums\<close> of \<open>n\<close>
  \<^verbatim>\<open>uint64\<close>: it fills a scratch buffer of \<open>8 * n\<close> bytes with \<^verbatim>\<open>io.ReadFull\<close>
  (\<^verbatim>\<open>io.EOF\<close> when the reader has no byte, \<^verbatim>\<open>io.ErrUnexpectedEOF\<close> when it has too few)
  and decodes the \<open>i\<close>-th number from the bytes \<open>8 * i\<close> to \<open>8 * i + 7\<close>. Bytes of the
  reader beyond \<open>8 * n\<close> are not read.
\<close>

definition binary_Read :: "nat \<Rightarrow> byte list \<Rightarrow> error + uint64 list" where
  "binary_Read n buf =
     (if length buf < 8 * n then Inl (if buf = [] then EOF else ErrUnexpectedEOF)
      else Inr (map (\<lambda>i. Uint64 (take 8 (drop (8 * i) buf))) [0..<n]))"

text \<open>
  \<^verbatim>\<open>file.ReadAt(buf, off)\<close> of \<^verbatim>\<open>*os.File\<close>, with \<open>len\<close> the length of \<^verbatim>\<open>buf\<close>: a negative
  offset is an error; otherwise it reads until \<^verbatim>\<open>buf\<close> is full or the file ends, and
  returns the number of bytes read, the bytes, and \<^verbatim>\<open>io.EOF\<close> when the file ended first.
\<close>

definition ReadAt :: "os_File \<Rightarrow> nat \<Rightarrow> int64 \<Rightarrow> nat \<times> byte list \<times> error option" where
  "ReadAt f len off =
     (if off <s 0 then (0, [], Some PathError)
      else
        let got = take len (drop (nat (sint off)) (content f))
        in (length got, got, if length got < len then Some EOF else None))"

text \<open>
  \<^verbatim>\<open>io.ReadFull(resp.Body, buf)\<close>, with \<open>len\<close> the length of \<^verbatim>\<open>buf\<close>: \<open>len\<close> bytes of
  the body when it has that many; otherwise the error that ended the stream, which is
  the transport error, or \<^verbatim>\<open>io.EOF\<close> when no byte was read, or \<^verbatim>\<open>io.ErrUnexpectedEOF\<close>.
\<close>

definition ReadFull :: "response \<Rightarrow> nat \<Rightarrow> nat \<times> byte list \<times> error option" where
  "ReadFull resp len =
     (if len \<le> length (body resp) then (len, take len (body resp), None)
      else (length (body resp), body resp,
            Some (if body_fault resp then URLError
                  else if body resp = [] then EOF else ErrUnexpectedEOF)))"

text \<open>
  \<^verbatim>\<open>make([]byte, n)\<close> panics for a negative length. The slice expression
  \<^verbatim>\<open>buf[lo:hi]\<close> panics unless \<^verbatim>\<open>0 <= lo <= hi <= cap(buf)\<close>; the capacity of a
  buffer made by \<^verbatim>\<open>make([]byte, n)\<close> is its length. An allocation of any non-negative
  length is taken to succeed.
\<close>

definition make_bytes :: "int64 \<Rightarrow> byte list option" where
  "make_bytes n = (if n <s 0 then None else Some (replicate (nat (sint n)) 0))"

definition slice_ok :: "byte list \<Rightarrow> int64 \<Rightarrow> int64 \<Rightarrow> bool" where
  "slice_ok buf lo hi = (0 \<le>s lo \<and> lo \<le>s hi \<and> sint hi \<le> int (length buf))"

definition slice :: "byte list \<Rightarrow> int64 \<Rightarrow> int64 \<Rightarrow> byte list" where
  "slice buf lo hi = take (nat (sint hi) - nat (sint lo)) (drop (nat (sint lo)) buf)"

text \<open>Writing through the slice \<^verbatim>\<open>buf[lo:hi]\<close> changes \<^verbatim>\<open>buf\<close> at these positions.\<close>

definition write_slice :: "byte list \<Rightarrow> int64 \<Rightarrow> int64 \<Rightarrow> byte list \<Rightarrow> byte list" where
  "write_slice buf lo hi bs = take (nat (sint lo)) buf @ bs @ drop (nat (sint hi)) buf"

text \<open>Sequencing: the effects of what ran before are put in front.\<close>

definition after :: "event list \<Rightarrow> 'a effect \<Rightarrow> 'a effect" where
  "after evs r = (evs @ fst r, snd r)"

subsection \<open>The functions of utils.go\<close>

text \<open>
  \<^verbatim>\<open>readChunk(file, offset, buf)\<close>. The model takes the length of \<^verbatim>\<open>buf\<close> and returns the
  bytes that were written to it. The number of bytes read is compared with the
  constant \<^verbatim>\<open>OSDBChunkSize\<close>, as in the source.
\<close>

definition readChunk :: "os_File \<Rightarrow> int64 \<Rightarrow> nat \<Rightarrow> byte list effect" where
  "readChunk file off len =
     (case ReadAt file len off of
        (n, bs, Some err) \<Rightarrow> ([PRead off len], Err err)
      | (n, bs, None) \<Rightarrow>
          if int n \<noteq> sint OSDBChunkSize
          then ([PRead off len], Err (ErrorsNew (''invalid read '' @ Itoa (int n))))
          else ([PRead off len], Ok bs))"

text \<open>
  \<^verbatim>\<open>readRemoteChunk(ctx, client, url, offset, buf)\<close>. The response body is closed by the
  deferred \<^verbatim>\<open>resp.Body.Close()\<close> on every return after \<^verbatim>\<open>client.Do\<close> succeeded.
\<close>

definition range_header :: "int64 \<Rightarrow> nat \<Rightarrow> string" where
  "range_header off len =
     ''bytes='' @ Itoa (sint off) @ ''-'' @ Itoa (sint (off + word_of_nat len - 1))"

definition readRemoteChunk :: "world \<Rightarrow> string \<Rightarrow> int64 \<Rightarrow> nat \<Rightarrow> byte list effect" where
  "readRemoteChunk w u off len =
     (if \<not> url_ok w u then ([], Err URLError)
      else
        let req = Request ''GET'' u [(''Range'', range_header off len)]
        in case client_Do w req of
             None \<Rightarrow> ([Do req], Err URLError)
           | Some resp \<Rightarrow>
               after [Do req, Acquire (ResponseBody req)]
                 (case ReadFull resp len of
                    (n, bs, Some err) \<Rightarrow> ([Release (ResponseBody req)], Err err)
                  | (n, bs, None) \<Rightarrow>
                      if n \<noteq> len
                      then ([Release (ResponseBody req)],
                            Err (ErrorsNew (''invalid read '' @ Itoa (int n))))
                      else ([Release (ResponseBody req)], Ok bs)))"

text \<open>The loop \<^verbatim>\<open>for _, span := range chunks { totalBufferNeeded += span.size }\<close>.\<close>

definition totalBufferNeeded :: "chunkInfo list \<Rightarrow> int64" where
  "totalBufferNeeded chunks = foldl (\<lambda>t span. t + size' span) 0 chunks"

text \<open>
  The second loop of \<^verbatim>\<open>readChunks\<close> (lines 131 to 141), from the current \<^verbatim>\<open>buf\<close> and
  \<^verbatim>\<open>filled\<close> over the remaining spans.
\<close>

fun readChunks_loop ::
  "os_File \<Rightarrow> int64 \<Rightarrow> chunkInfo list \<Rightarrow> byte list \<Rightarrow> int64 \<Rightarrow> byte list effect" where
  "readChunks_loop file fileSize [] buf filled = ([], Ok buf)"
| "readChunks_loop file fileSize (span # rest) buf filled =
     (let start = (if offset span <s 0 then offset span + fileSize else offset span)
      in if \<not> slice_ok buf filled (filled + size' span) then ([], Panic SliceBoundsOutOfRange)
         else case readChunk file start (length (slice buf filled (filled + size' span))) of
                (evs, Ok bs) \<Rightarrow>
                  after evs
                    (readChunks_loop file fileSize rest
                       (write_slice buf filled (filled + size' span) bs) (filled + size' span))
              | (evs, Err err) \<Rightarrow> (evs, Err err)
              | (evs, Panic p) \<Rightarrow> (evs, Panic p))"

text \<open>The second loop of \<^verbatim>\<open>readRemoteChunks\<close> (lines 86 to 96).\<close>

fun readRemoteChunks_loop ::
  "world \<Rightarrow> string \<Rightarrow> int64 \<Rightarrow> chunkInfo list \<Rightarrow> byte list \<Rightarrow> int64 \<Rightarrow> byte list effect" where
  "readRemoteChunks_loop w u fileSize [] buf filled = ([], Ok buf)"
| "readRemoteChunks_loop w u fileSize (span # rest) buf filled =
     (let start = (if offset span <s 0 then offset span + fileSize else offset span)
      in if \<not> slice_ok buf filled (filled + size' span) then ([], Panic SliceBoundsOutOfRange)
         else case readRemoteChunk w u start (length (slice buf filled (filled + size' span))) of
                (evs, Ok bs) \<Rightarrow>
                  after evs
                    (readRemoteChunks_loop w u fileSize rest
                       (write_slice buf filled (filled + size' span) bs) (filled + size' span))
              | (evs, Err err) \<Rightarrow> (evs, Err err)
              | (evs, Panic p) \<Rightarrow> (evs, Panic p))"

text \<open>
  \<^verbatim>\<open>readRemoteChunks(url, minimumRequiredSize, chunks...)\<close>. The response of the
  \<^verbatim>\<open>HEAD\<close> request is never closed. \<^verbatim>\<open>header["Accept-Ranges"]\<close> and
  \<^verbatim>\<open>header["Content-Length"]\<close> are indexed at 0: on a key that is present with no value,
  and on the absent key \<^verbatim>\<open>Content-Length\<close> (the nil slice), the index is out of range.
  The 10 second deadline of the context is not modelled: a request that it cuts
  short is a request that fails.
\<close>

definition readRemoteChunks ::
  "world \<Rightarrow> string \<Rightarrow> int64 \<Rightarrow> chunkInfo list \<Rightarrow> (int64 \<times> byte list) effect" where
  "readRemoteChunks w u minimumRequiredSize chunks =
     (if \<not> url_ok w u then ([], Err URLError)
      else
        let req = Request ''HEAD'' u []
        in case client_Do w req of
             None \<Rightarrow> ([Do req], Err URLError)
           | Some res \<Rightarrow>
               after [Do req, Acquire (ResponseBody req)]
                 (case header res ''Accept-Ranges'' of
                    None \<Rightarrow> ([], Err (ErrorsNew ''URL doesn't support range fetch''))
                  | Some [] \<Rightarrow> ([], Panic IndexOutOfRange)
                  | Some (accept_ranges0 # _) \<Rightarrow>
                      if accept_ranges0 \<noteq> ''bytes''
                      then ([], Err (ErrorsNew ''URL doesn't support range fetch''))
                      else
                        (case header res ''Content-Length'' of
                           None \<Rightarrow> ([], Panic IndexOutOfRange)
                         | Some [] \<Rightarrow> ([], Panic IndexOutOfRange)
                         | Some (content_length0 # _) \<Rightarrow>
                             (case ParseInt content_length0 of
                                Inl err \<Rightarrow> ([], Err err)
                              | Inr fileSize \<Rightarrow>
                                  if fileSize <s minimumRequiredSize
                                  then ([], Err (ErrorsNew
                                          ''file is too small to generate a valid hash''))
                                  else
                                    (case make_bytes (totalBufferNeeded chunks) of
                                       None \<Rightarrow> ([], Panic MakesliceLenOutOfRange)
                                     | Some buf \<Rightarrow>
                                         (case readRemoteChunks_loop w u fileSize chunks buf 0 of
                                            (evs, Ok buf') \<Rightarrow> (evs, Ok (fileSize, buf'))
                                          | (evs, Err err) \<Rightarrow> (evs, Err err)
                                          | (evs, Panic p) \<Rightarrow> (evs, Panic p)))))))"

text \<open>
  \<^verbatim>\<open>readChunks(filePath, minimumRequiredSize, chunks...)\<close>. For a URL it calls
  \<^verbatim>\<open>readRemoteChunks(filePath, OSDBChunkSize, chunks...)\<close>, as in the source.
  The file that \<^verbatim>\<open>os.Open\<close> returned is never closed.
\<close>

definition readChunks ::
  "world \<Rightarrow> string \<Rightarrow> int64 \<Rightarrow> chunkInfo list \<Rightarrow> (int64 \<times> byte list) effect" where
  "readChunks w filePath minimumRequiredSize chunks =
     (if HasPrefix filePath ''http://'' \<or> HasPrefix filePath ''https://''
      then readRemoteChunks w filePath OSDBChunkSize chunks
      else case os_Open w filePath of
             None \<Rightarrow> ([], Err (ErrorsNew ''couldn't open file for hashing''))
           | Some file \<Rightarrow>
               after [Acquire (FileHandle filePath)]
                 (if \<not> stat_ok file then ([], Err (ErrorsNew ''couldn't stat file for hashing''))
                  else
                    let fileSize = (word_of_nat (length (content file)) :: int64)
                    in if fileSize <s minimumRequiredSize
                       then ([], Err (ErrorsNew ''file is too small to generate a valid hash''))
                       else
                         (case make_bytes (totalBufferNeeded chunks) of
                            None \<Rightarrow> ([], Panic MakesliceLenOutOfRange)
                          | Some buf \<Rightarrow>
                              (case readChunks_loop file fileSize chunks buf 0 of
                                 (evs, Ok buf') \<Rightarrow> (evs, Ok (fileSize, buf'))
                               | (evs, Err err) \<Rightarrow> (evs, Err err)
                               | (evs, Panic p) \<Rightarrow> (evs, Panic p)))))"

text \<open>
  \<^verbatim>\<open>OSDBHashFile(filePath)\<close>. \<^verbatim>\<open>nums\<close> is an array of \<^verbatim>\<open>(OSDBChunkSize * 2) / 8\<close>, that
  is 16384, numbers; the loop \<^verbatim>\<open>for _, num := range nums { hashUint += num }\<close> is the
  \<open>foldl\<close>.
\<close>

definition spans :: "chunkInfo list" where
  "spans = [\<lparr>offset = 0, size' = OSDBChunkSize\<rparr>, \<lparr>offset = - OSDBChunkSize, size' = OSDBChunkSize\<rparr>]"

definition OSDBHashFile :: "world \<Rightarrow> string \<Rightarrow> string effect" where
  "OSDBHashFile w filePath =
     (case readChunks w filePath OSDBChunkSize spans of
        (evs, Err err) \<Rightarrow> (evs, Err err)
      | (evs, Panic p) \<Rightarrow> (evs, Panic p)
      | (evs, Ok (fileSize, buf)) \<Rightarrow>
          (case binary_Read 16384 buf of
             Inl err \<Rightarrow> (evs, Err err)
           | Inr nums \<Rightarrow>
               (let hashUint = foldl (\<lambda>h num. h + num) 0 nums
                in (evs, Ok (Sprintf_016x (hashUint + fileSize))))))"

subsection \<open>Notions of the specification\<close>

text \<open>A source is remote when its name starts with \<^verbatim>\<open>http://\<close> or \<^verbatim>\<open>https://\<close>.\<close>

definition is_remote :: "string \<Rightarrow> bool" where
  "is_remote p = (HasPrefix p ''http://'' \<or> HasPrefix p ''https://'')"

text \<open>The error kinds of the specification that the claims name, as the errors of the code.\<close>

definition SourceTooSmallError :: error where
  "SourceTooSmallError = ErrorsNew ''file is too small to generate a valid hash''"

definition RangeUnsupportedError :: error where
  "RangeUnsupportedError = ErrorsNew ''URL doesn't support range fetch''"

fun MalformedResponseError :: "error \<Rightarrow> bool" where
  "MalformedResponseError (NumError _) = True"
| "MalformedResponseError _ = False"

text \<open>
  The total size of a source, when the chunk reader determines one: the size that
  \<^verbatim>\<open>Stat\<close> reports for a file that opens (a file size is an \<^verbatim>\<open>int64\<close>, so a file has
  fewer than \<open>2 ^ 63\<close> bytes), and the \<^verbatim>\<open>Content-Length\<close> of the response to \<^verbatim>\<open>HEAD\<close>
  when that response declares \<^verbatim>\<open>Accept-Ranges: bytes\<close>.
\<close>

definition source_size :: "world \<Rightarrow> string \<Rightarrow> int64 option" where
  "source_size w p =
     (if is_remote p then
        (if url_ok w p then
           (case client_Do w (Request ''HEAD'' p []) of
              None \<Rightarrow> None
            | Some res \<Rightarrow>
                (case header res ''Accept-Ranges'' of
                   Some (a # _) \<Rightarrow>
                     if a = ''bytes'' then
                       (case header res ''Content-Length'' of
                          Some (c # _) \<Rightarrow> (case ParseInt c of Inr S \<Rightarrow> Some S | Inl _ \<Rightarrow> None)
                        | _ \<Rightarrow> None)
                     else None
                 | _ \<Rightarrow> None))
         else None)
      else
        (case os_Open w p of
           None \<Rightarrow> None
         | Some f \<Rightarrow>
             if stat_ok f \<and> length (content f) < 2 ^ 63
             then Some (word_of_nat (length (content f))) else None))"

text \<open>The offset at which a span is fetched: the value of \<^verbatim>\<open>start\<close> in both loops.\<close>

definition resolve :: "int64 \<Rightarrow> chunkInfo \<Rightarrow> int64" where
  "resolve S sp = (if offset sp <s 0 then offset sp + S else offset sp)"

text \<open>
  The bytes of a source in the range that starts at \<open>off\<close> and has \<open>n\<close> bytes: the bytes
  of the file at these positions; for a URL, the first \<open>n\<close> bytes of the body that
  answers \<^verbatim>\<open>GET\<close> with the header \<^verbatim>\<open>Range: bytes=off-(off+n-1)\<close>.
\<close>

definition local_bytes :: "os_File \<Rightarrow> int64 \<Rightarrow> nat \<Rightarrow> byte list" where
  "local_bytes f off n = take n (drop (nat (sint off)) (content f))"

definition range_request :: "string \<Rightarrow> int64 \<Rightarrow> nat \<Rightarrow> request" where
  "range_request u off n = Request ''GET'' u [(''Range'', range_header off n)]"

definition remote_bytes :: "world \<Rightarrow> string \<Rightarrow> int64 \<Rightarrow> nat \<Rightarrow> byte list" where
  "remote_bytes w u off n =
     (case client_Do w (range_request u off n) of None \<Rightarrow> [] | Some resp \<Rightarrow> take n (body resp))"


text \<open>The read of \<open>n\<close> bytes at \<open>off\<close> succeeds: the file, or the body of the response,
  has these bytes.\<close>

definition fetch_ok :: "world \<Rightarrow> string \<Rightarrow> int64 \<Rightarrow> nat \<Rightarrow> bool" where
  "fetch_ok w p off n =
     (if is_remote p then
        (case client_Do w (range_request p off n) of
           None \<Rightarrow> False
         | Some resp \<Rightarrow> n \<le> length (body resp))
      else
        (case os_Open w p of
           None \<Rightarrow> False
         | Some f \<Rightarrow> 0 \<le>s off \<and> nat (sint off) + n \<le> length (content f)))"

text \<open>The number of bytes of a span.\<close>

definition span_len :: "chunkInfo \<Rightarrow> nat" where
  "span_len sp = nat (sint (size' sp))"

text \<open>An eight-byte little-endian unsigned word, least significant byte first.\<close>

definition PutUint64 :: "uint64 \<Rightarrow> byte list" where
  "PutUint64 v =
     [ucast v, ucast (drop_bit 8 v), ucast (drop_bit 16 v), ucast (drop_bit 24 v),
      ucast (drop_bit 32 v), ucast (drop_bit 40 v), ucast (drop_bit 48 v), ucast (drop_bit 56 v)]"

definition hex_chars :: "char set" where
  "hex_chars = set ''0123456789abcdef''"

text \<open>The resources that a run acquired and did not release, in the order of acquisition.\<close>

fun held :: "resource list \<Rightarrow> event list \<Rightarrow> resource list" where
  "held rs [] = rs"
| "held rs (Acquire r # es) = held (rs @ [r]) es"
| "held rs (Release r # es) = held (remove1 r rs) es"
| "held rs (_ # es) = held rs es"

definition unreleased :: "event list \<Rightarrow> resource list" where
  "unreleased es = held [] es"

text \<open>The range fetches of a run: the requests sent with the method \<^verbatim>\<open>GET\<close>.\<close>

fun fetches :: "event list \<Rightarrow> request list" where
  "fetches [] = []"
| "fetches (Do req # es) = (if req_method req = ''GET'' then req # fetches es else fetches es)"
| "fetches (_ # es) = fetches es"

subsection \<open>Example worlds\<close>

text \<open>A file system with one file, \<^verbatim>\<open>movie.mkv\<close>, and no network.\<close>

definition local_world :: "byte list \<Rightarrow> world" where
  "local_world bs =
     \<lparr>os_Open = (\<lambda>p. if p = ''movie.mkv'' then Some \<lparr>stat_ok = True, content = bs\<rparr> else None),
      url_ok = (\<lambda>u. False),
      client_Do = (\<lambda>req. None)\<rparr>"

text \<open>
  A server that answers \<^verbatim>\<open>HEAD\<close> with the given headers and every \<^verbatim>\<open>GET\<close> with the
  given body, and no file system.
\<close>

definition remote_world :: "(string \<times> string list) list \<Rightarrow> byte list \<Rightarrow> world" where
  "remote_world hs bs =
     \<lparr>os_Open = (\<lambda>p. None),
      url_ok = (\<lambda>u. True),
      client_Do = (\<lambda>req. if req_method req = ''HEAD''
                          then Some \<lparr>header = map_of hs, body = [], body_fault = False\<rparr>
                          else Some \<lparr>header = Map.empty, body = bs, body_fault = False\<rparr>)\<rparr>"

text \<open>
  The number that a string of hexadecimal digits denotes, most significant digit first.
  It gives the rendering of \<^verbatim>\<open>%016x\<close> its meaning: the result of \<^verbatim>\<open>OSDBHashFile\<close> is
  compared with a number through \<open>hex_value\<close>, not through the formatter.
\<close>

definition hex_digit_value :: "char \<Rightarrow> nat" where
  "hex_digit_value c =
     (let n = (of_char c :: nat) in if 48 \<le> n \<and> n \<le> 57 then n - 48 else n - 87)"

definition hex_value :: "string \<Rightarrow> nat" where
  "hex_value s = foldl (\<lambda>n c. 16 * n + hex_digit_value c) 0 s"

subsection \<open>The byte range that a header names\<close>







section \<open>Auxiliary facts\<close>

subsection \<open>Words, slices and the local loop\<close>


lemma sint_of_nat64: "n < 2 ^ 63 \<Longrightarrow> sint (word_of_nat n :: 64 word) = int n"
  by (simp add: signed_of_nat signed_take_bit_int_eq_self)  

lemma readChunk_Ok:
  "readChunk file off len = (evs, Ok bs) \<Longrightarrow>
     evs = [PRead off len] \<and> len = 65536 \<and> 0 \<le>s off \<and> bs = take 65536 (drop (nat (sint off)) (content file)) \<and> length bs = 65536"
  by (auto simp: readChunk_def ReadAt_def OSDBChunkSize_def Let_def split: if_splits)

lemma slice_len: "slice_ok buf lo hi \<Longrightarrow> length (slice buf lo hi) = nat (sint hi) - nat (sint lo)"
  by (auto simp: slice_ok_def slice_def word_sle_eq)

lemma write_slice_len: "slice_ok buf lo hi \<Longrightarrow> length bs = nat (sint hi) - nat (sint lo) \<Longrightarrow> length (write_slice buf lo hi bs) = length buf"
  by (auto simp: slice_ok_def write_slice_def word_sle_eq)

lemma slice_ok_bounds:
  "slice_ok buf lo hi \<Longrightarrow> 0 \<le> sint lo \<and> sint lo \<le> sint hi \<and> sint hi \<le> int (length buf)"
  by (simp add: slice_ok_def word_sle_eq)

lemma word_diff_sint:
  fixes lo z :: int64
  assumes "sint (lo + z) = sint lo + k"
  shows "z = word_of_int k"
proof -
  have "word_of_int (sint (lo + z)) = (word_of_int (sint lo + k) :: int64)" using assms by simp
  then have "lo + z = lo + word_of_int k" by simp
  then show ?thesis by simp
qed

lemma readChunks_loop_Ok:
  assumes "readChunks_loop file S chunks buf filled = (evs, Ok buf')"
    and "0 \<le> sint filled" and "sint filled \<le> int (length buf)"
  shows "length buf' = length buf
       \<and> buf' = take (nat (sint filled)) buf
                @ concat (map (\<lambda>sp. take 65536 (drop (nat (sint (resolve S sp))) (content file))) chunks)
                @ drop (nat (sint filled) + 65536 * length chunks) buf
       \<and> nat (sint filled) + 65536 * length chunks \<le> length buf
       \<and> evs = map (\<lambda>sp. PRead (resolve S sp) 65536) chunks
       \<and> (\<forall>sp \<in> set chunks. size' sp = 65536 \<and> 0 \<le>s resolve S sp
            \<and> nat (sint (resolve S sp)) + 65536 \<le> length (content file))"
  using assms
proof (induction chunks arbitrary: buf filled evs)
  case Nil
  then show ?case by simp
next
  case (Cons sp rest)
  let ?hi = "filled + size' sp"
  let ?start = "resolve S sp"
  from Cons.prems(1) have ok: "slice_ok buf filled ?hi"
    by (auto simp: Let_def split: if_splits)
  obtain evs1 r1 where rc: "readChunk file ?start (length (slice buf filled ?hi)) = (evs1, r1)"
    by (cases "readChunk file ?start (length (slice buf filled ?hi))") auto
  from Cons.prems(1) ok rc obtain bs where r1: "r1 = Ok bs"
    by (cases r1) (auto simp: Let_def resolve_def)
  let ?buf1 = "write_slice buf filled ?hi bs"
  obtain evs2 where rest: "readChunks_loop file S rest ?buf1 ?hi = (evs2, Ok buf')"
    and evs: "evs = evs1 @ evs2"
    using Cons.prems(1) ok rc r1
    by (cases "readChunks_loop file S rest ?buf1 ?hi") (auto simp: Let_def resolve_def after_def)
  from readChunk_Ok[OF rc[unfolded r1]]
  have e1: "evs1 = [PRead ?start 65536]" and len: "length (slice buf filled ?hi) = 65536"
    and st: "0 \<le>s ?start" and bs: "bs = take 65536 (drop (nat (sint ?start)) (content file))"
    and lbs: "length bs = 65536" by auto
  from slice_ok_bounds[OF ok] have b: "0 \<le> sint filled" "sint filled \<le> sint ?hi" "sint ?hi \<le> int (length buf)"
    by auto
  from len slice_len[OF ok] have d: "nat (sint ?hi) - nat (sint filled) = 65536" by simp
  with b have hi: "sint ?hi = sint filled + 65536" by linarith
  from word_diff_sint[OF hi] have sz: "size' sp = 65536" by simp
  have l1: "length ?buf1 = length buf" using write_slice_len[OF ok] lbs d by simp
  have nhi: "nat (sint ?hi) = nat (sint filled) + 65536" using hi b by linarith
  from Cons.IH[OF rest] b hi l1
  have IH: "length buf' = length buf"
    "buf' = take (nat (sint ?hi)) ?buf1
                @ concat (map (\<lambda>sp. take 65536 (drop (nat (sint (resolve S sp))) (content file))) rest)
                @ drop (nat (sint ?hi) + 65536 * length rest) ?buf1"
    "nat (sint ?hi) + 65536 * length rest \<le> length buf"
    "evs2 = map (\<lambda>sp. PRead (resolve S sp) 65536) rest"
    "\<forall>sp \<in> set rest. size' sp = 65536 \<and> 0 \<le>s resolve S sp
            \<and> nat (sint (resolve S sp)) + 65536 \<le> length (content file)"
    by auto
  have lf: "nat (sint filled) \<le> length buf" using b by linarith
  have t: "take (nat (sint ?hi)) ?buf1 = take (nat (sint filled)) buf @ bs"
    using lf lbs nhi by (simp add: write_slice_def)
  have dr: "drop (nat (sint ?hi) + 65536 * length rest) ?buf1
          = drop (nat (sint filled) + 65536 * length (sp # rest)) buf"
    using lf lbs nhi by (simp add: write_slice_def add.commute add.left_commute)
  have inb: "nat (sint ?start) + 65536 \<le> length (content file)"
    using lbs bs by simp
  have c1: "length buf' = length buf" by (rule IH(1))
  have c2: "buf' = take (nat (sint filled)) buf
                @ concat (map (\<lambda>sp. take 65536 (drop (nat (sint (resolve S sp))) (content file))) (sp # rest))
                @ drop (nat (sint filled) + 65536 * length (sp # rest)) buf"
  proof -
    have "buf' = (take (nat (sint filled)) buf @ bs)
                @ concat (map (\<lambda>sp. take 65536 (drop (nat (sint (resolve S sp))) (content file))) rest)
                @ drop (nat (sint filled) + 65536 * length (sp # rest)) buf"
      using IH(2) by (simp only: t dr)
    then show ?thesis by (simp add: bs)
  qed
  have c3: "nat (sint filled) + 65536 * length (sp # rest) \<le> length buf"
    using IH(3) nhi by simp
  have c4: "evs = map (\<lambda>sp. PRead (resolve S sp) 65536) (sp # rest)"
    using evs e1 IH(4) by simp
  have c5: "\<forall>sp \<in> set (sp # rest). size' sp = 65536 \<and> 0 \<le>s resolve S sp
            \<and> nat (sint (resolve S sp)) + 65536 \<le> length (content file)"
    using IH(5) sz st inb by simp
  from c1 c2 c3 c4 c5 show ?case by blast
qed


lemma sint_tail_offset:
  assumes "65536 \<le> n" "n < 2 ^ 63"
  shows "sint ((word_of_nat n :: int64) - 65536) = int n - 65536"
proof -
  have "(word_of_nat n :: int64) - 65536 = word_of_nat (n - 65536)"
    using assms(1) by simp
  moreover have "sint (word_of_nat (n - 65536) :: int64) = int (n - 65536)"
    using assms(2) by (intro sint_of_nat64) simp
  ultimately show ?thesis using assms(1) by simp
qed

lemma readChunks_local_spans:
  assumes nr: "\<not> (HasPrefix p ''http://'' \<or> HasPrefix p ''https://'')"
    and op: "os_Open w p = Some file" and st: "stat_ok file"
    and lo: "65536 \<le> length (content file)" and hi: "length (content file) < 2 ^ 63"
  shows "readChunks w p OSDBChunkSize spans =
           ([Acquire (FileHandle p), PRead 0 65536,
             PRead (word_of_nat (length (content file)) - 65536) 65536],
            Ok (word_of_nat (length (content file)),
                take 65536 (content file) @ drop (length (content file) - 65536) (content file)))"
proof -
  let ?n = "length (content file)"
  let ?S = "word_of_nat ?n :: int64"
  have s1: "sint ?S = int ?n" using hi by (rule sint_of_nat64)
  have s2: "sint (?S - 65536) = int ?n - 65536"
    using lo hi by (rule sint_tail_offset)
  have n2: "nat (int ?n - 65536) = ?n - 65536" by simp
  have t: "totalBufferNeeded spans = 131072"
    by (simp add: totalBufferNeeded_def spans_def OSDBChunkSize_def)
  have m: "make_bytes 131072 = Some (replicate 131072 0)"
    by (simp add: make_bytes_def word_sless_alt)
  have r1: "readChunk file 0 65536 = ([PRead 0 65536], Ok (take 65536 (content file)))"
    using lo by (simp add: readChunk_def ReadAt_def OSDBChunkSize_def)
  have r2: "readChunk file (?S - 65536) 65536
             = ([PRead (?S - 65536) 65536], Ok (drop (?n - 65536) (content file)))"
    using lo by (simp add: readChunk_def ReadAt_def OSDBChunkSize_def s2 n2 word_sless_alt
                      del: of_nat_diff)
  have neg: "(- 65536 :: int64) <s 0" by (simp add: word_sless_alt)
  have loop: "readChunks_loop file ?S spans (replicate 131072 0) 0
        = ([PRead 0 65536, PRead (?S - 65536) 65536],
           Ok (take 65536 (content file) @ drop (?n - 65536) (content file)))"
    using lo hi
    by (simp add: spans_def OSDBChunkSize_def slice_ok_def slice_def write_slice_def
        word_sle_eq r1 r2 after_def neg)
  have ns: "\<not> ?S <s OSDBChunkSize"
    using lo by (simp add: word_sless_alt s1 OSDBChunkSize_def)
  show ?thesis
    using nr op st ns by (simp add: readChunks_def t m loop after_def Let_def)
qed



subsection \<open>Hexadecimal rendering\<close>

lemma hex_digits_length: "n < 16 ^ k \<Longrightarrow> 0 < k \<Longrightarrow> length (hex_digits n) \<le> k"
proof (induction n arbitrary: k rule: hex_digits.induct)
  case (1 n)
  show ?case
  proof (cases "n < 16")
    case True
    then show ?thesis using "1.prems" by (simp add: hex_digits.simps)
  next
    case False
    then obtain j where k: "k = Suc j" using "1.prems"(2) by (cases k) auto
    have "j \<noteq> 0" using False "1.prems"(1) k by (cases j) auto
    moreover have "n div 16 < 16 ^ j" using "1.prems"(1) k
      by (simp add: less_mult_imp_div_less mult.commute)
    ultimately have "length (hex_digits (n div 16)) \<le> j"
      using "1.IH"[OF False, of j] by simp
    then show ?thesis using False k by (subst hex_digits.simps) simp
  qed
qed

lemma hex_digit_char: "d < 16 \<Longrightarrow> ''0123456789abcdef'' ! d \<in> hex_chars"
  unfolding hex_chars_def by (rule nth_mem) simp

lemma hex_digits_chars: "set (hex_digits n) \<subseteq> hex_chars"
proof (induction n rule: hex_digits.induct)
  case (1 n)
  show ?case
  proof (cases "n < 16")
    case True
    then show ?thesis by (subst hex_digits.simps) (simp add: hex_digit_char)
  next
    case False
    have "n mod 16 < 16" by simp
    then have "''0123456789abcdef'' ! (n mod 16) \<in> hex_chars" by (rule hex_digit_char)
    then show ?thesis using "1.IH"[OF False] False by (subst hex_digits.simps) simp
  qed
qed

lemma Sprintf_016x_length: "length (Sprintf_016x v) = 16"
proof -
  have "unat v < 2 ^ 64" using unsigned_less[of v] by simp
  then have "unat v < 16 ^ 16" by simp
  then have "length (hex_digits (unat v)) \<le> 16" by (rule hex_digits_length) simp
  then show ?thesis by (simp add: Sprintf_016x_def Let_def)
qed

lemma Sprintf_016x_chars: "set (Sprintf_016x v) \<subseteq> hex_chars"
proof -
  have "CHR ''0'' \<in> hex_chars" by (simp add: hex_chars_def)
  then show ?thesis using hex_digits_chars[of "unat v"]
    by (auto simp: Sprintf_016x_def Let_def)
qed

subsection \<open>Little-endian words\<close>

lemma byte_ranges:
  assumes "n < (64::nat)"
  obtains "n < 8" | "8 \<le> n" "n < 16" | "16 \<le> n" "n < 24" | "24 \<le> n" "n < 32"
    | "32 \<le> n" "n < 40" | "40 \<le> n" "n < 48" | "48 \<le> n" "n < 56" | "56 \<le> n" "n < 64"
  using assms by linarith

lemma Uint64_PutUint64: "Uint64 (PutUint64 v) = v"
proof (rule bit_word_eqI)
  fix n assume n: "n < LENGTH(64)"
  then have n64: "n < 64" by simp
  have e: "bit (Uint64 (PutUint64 v)) n \<longleftrightarrow>
         (n < 8 \<and> bit v n \<or>
          8 \<le> n \<and> n - 8 < 64 \<and> n - 8 < 8 \<and> bit v (8 + (n - 8)) \<or>
          16 \<le> n \<and> n - 16 < 64 \<and> n - 16 < 8 \<and> bit v (16 + (n - 16)) \<or>
          24 \<le> n \<and> n - 24 < 64 \<and> n - 24 < 8 \<and> bit v (24 + (n - 24)) \<or>
          32 \<le> n \<and> n - 32 < 64 \<and> n - 32 < 8 \<and> bit v (32 + (n - 32)) \<or>
          40 \<le> n \<and> n - 40 < 64 \<and> n - 40 < 8 \<and> bit v (40 + (n - 40)) \<or>
          48 \<le> n \<and> n - 48 < 64 \<and> n - 48 < 8 \<and> bit v (48 + (n - 48)) \<or>
          56 \<le> n \<and> n - 56 < 64 \<and> n - 56 < 8 \<and> bit v (56 + (n - 56)))"
    using n64 by (simp add: Uint64_def PutUint64_def bit_simps)
  from n64 show "bit (Uint64 (PutUint64 v)) n \<longleftrightarrow> bit v n"
    unfolding e by (cases n rule: byte_ranges) auto
qed

lemma PutUint64_length: "length (PutUint64 v) = 8"
  by (simp add: PutUint64_def)

lemma PutUint64_zero: "PutUint64 0 = replicate 8 0"
  by (simp add: PutUint64_def numeral_eq_Suc)

subsection \<open>Decoding the buffer\<close>

lemma concat_block:
  "\<forall>x \<in> set xs. length (f x) = k \<Longrightarrow> i < length xs \<Longrightarrow>
     take k (drop (k * i) (concat (map f xs))) = f (xs ! i)"
proof (induction xs arbitrary: i)
  case Nil
  then show ?case by simp
next
  case (Cons x xs)
  show ?case
  proof (cases i)
    case 0
    then show ?thesis using Cons.prems by simp
  next
    case (Suc j)
    then have "take k (drop (k * j) (concat (map f xs))) = f (xs ! j)"
      using Cons by simp
    then show ?thesis using Suc Cons.prems by simp
  qed
qed

lemma concat_blocks_length:
  "\<forall>x \<in> set xs. length (f x) = k \<Longrightarrow> length (concat (map f xs)) = k * length xs"
  by (induction xs) simp_all

lemma binary_Read_words:
  assumes "n \<le> length ws"
  shows "binary_Read n (concat (map PutUint64 ws)) = Inr (take n ws)"
proof -
  have len: "length (concat (map PutUint64 ws)) = 8 * length ws"
    by (rule concat_blocks_length) (simp add: PutUint64_length)
  have "map (\<lambda>i. Uint64 (take 8 (drop (8 * i) (concat (map PutUint64 ws))))) [0..<n] = take n ws"
  proof (rule nth_equalityI)
    show "length (map (\<lambda>i. Uint64 (take 8 (drop (8 * i) (concat (map PutUint64 ws))))) [0..<n])
          = length (take n ws)" using assms by simp
  next
    fix i assume "i < length (map (\<lambda>i. Uint64 (take 8 (drop (8 * i) (concat (map PutUint64 ws))))) [0..<n])"
    then have i: "i < n" by simp
    then have "take 8 (drop (8 * i) (concat (map PutUint64 ws))) = PutUint64 (ws ! i)"
      using assms by (intro concat_block) (simp_all add: PutUint64_length)
    then show "map (\<lambda>i. Uint64 (take 8 (drop (8 * i) (concat (map PutUint64 ws))))) [0..<n] ! i
               = take n ws ! i"
      using i by (simp add: Uint64_PutUint64)
  qed
  then show ?thesis using assms len by (simp add: binary_Read_def)
qed

lemma zero_words: "concat (map PutUint64 (replicate n 0)) = replicate (8 * n) 0"
proof (induction n)
  case 0
  show ?case by simp
next
  case (Suc n)
  have "concat (map PutUint64 (replicate (Suc n) 0)) = replicate 8 0 @ replicate (8 * n) 0"
    using Suc by (simp add: PutUint64_zero)
  also have "\<dots> = replicate (8 + 8 * n) 0" by (rule replicate_add [symmetric])
  finally show ?case by simp
qed

lemma foldl_sum: "foldl (\<lambda>h num. h + num) a ws = a + sum_list (ws :: uint64 list)"
  by (induction ws arbitrary: a) (simp_all add: add.assoc)

lemma OSDBHashFile_words:
  assumes "readChunks w p OSDBChunkSize spans = (evs, Ok (T, concat (map PutUint64 ws)))"
    and "16384 \<le> length ws"
  shows "OSDBHashFile w p = (evs, Ok (Sprintf_016x (sum_list (take 16384 ws) + T)))"
  using assms by (simp add: OSDBHashFile_def binary_Read_words foldl_sum)

subsection \<open>The remote loop\<close>

lemma readRemoteChunk_Ok:
  assumes "readRemoteChunk w u off len = (evs, Ok bs)"
  shows "bs = remote_bytes w u off len \<and> length bs = len
       \<and> evs = [Do (range_request u off len), Acquire (ResponseBody (range_request u off len)),
                 Release (ResponseBody (range_request u off len))]"
  using assms
  by (auto simp: readRemoteChunk_def remote_bytes_def range_request_def ReadFull_def after_def
      Let_def split: if_splits option.splits)

lemma sint_word_of_int64: "- (2 ^ 63) \<le> k \<Longrightarrow> k < 2 ^ 63 \<Longrightarrow> sint (word_of_int k :: int64) = k"
  by (simp add: sint_sbintrunc' signed_take_bit_int_eq_self)

lemma readRemoteChunks_loop_Ok:
  assumes "readRemoteChunks_loop w u S chunks buf filled = (evs, Ok buf')"
    and "0 \<le> sint filled" and "sint filled \<le> int (length buf)"
  shows "length buf' = length buf
       \<and> buf' = take (nat (sint filled)) buf
                @ concat (map (\<lambda>sp. remote_bytes w u (resolve S sp) (span_len sp)) chunks)
                @ drop (nat (sint filled) + sum_list (map span_len chunks)) buf
       \<and> nat (sint filled) + sum_list (map span_len chunks) \<le> length buf
       \<and> fetches evs = map (\<lambda>sp. range_request u (resolve S sp) (span_len sp)) chunks
       \<and> (\<forall>sp \<in> set chunks. 0 \<le> sint (size' sp)
            \<and> length (remote_bytes w u (resolve S sp) (span_len sp)) = span_len sp)"
  using assms
proof (induction chunks arbitrary: buf filled evs)
  case Nil
  then show ?case by simp
next
  case (Cons sp rest)
  let ?hi = "filled + size' sp"
  let ?start = "resolve S sp"
  let ?g = "\<lambda>sp. remote_bytes w u (resolve S sp) (span_len sp)"
  from Cons.prems(1) have ok: "slice_ok buf filled ?hi"
    by (auto simp: Let_def split: if_splits)
  obtain evs1 r1 where rc: "readRemoteChunk w u ?start (length (slice buf filled ?hi)) = (evs1, r1)"
    by (cases "readRemoteChunk w u ?start (length (slice buf filled ?hi))") auto
  from Cons.prems(1) ok rc obtain bs where r1: "r1 = Ok bs"
    by (cases r1) (auto simp: Let_def resolve_def)
  let ?buf1 = "write_slice buf filled ?hi bs"
  obtain evs2 where rest: "readRemoteChunks_loop w u S rest ?buf1 ?hi = (evs2, Ok buf')"
    and evs: "evs = evs1 @ evs2"
    using Cons.prems(1) ok rc r1
    by (cases "readRemoteChunks_loop w u S rest ?buf1 ?hi") (auto simp: Let_def resolve_def after_def)
  from slice_ok_bounds[OF ok] have b: "0 \<le> sint filled" "sint filled \<le> sint ?hi" "sint ?hi \<le> int (length buf)"
    by auto
  define k where "k = sint ?hi - sint filled"
  have k0: "0 \<le> k" using b k_def by simp
  have k63: "k < 2 ^ 63" using sint_lt[of ?hi] b k_def by simp
  have hi: "sint ?hi = sint filled + k" by (simp add: k_def)
  from word_diff_sint[OF hi] have sz: "size' sp = word_of_int k" .
  have ssz: "sint (size' sp) = k" unfolding sz using k0 k63 by (intro sint_word_of_int64) simp_all
  have sl: "span_len sp = nat k" by (simp add: span_len_def ssz)
  have len: "length (slice buf filled ?hi) = nat k"
    using slice_len[OF ok] b k_def by linarith
  from readRemoteChunk_Ok[OF rc[unfolded r1 len]]
  have bs: "bs = ?g sp" and lbs: "length bs = nat k"
    and e1: "evs1 = [Do (range_request u ?start (nat k)), Acquire (ResponseBody (range_request u ?start (nat k))),
                 Release (ResponseBody (range_request u ?start (nat k)))]"
    by (auto simp: sl)
  have f1: "fetches evs1 = [range_request u ?start (span_len sp)]"
    by (simp add: e1 sl range_request_def)
  have fapp: "\<And>a b. fetches (a @ b) = fetches a @ fetches b"
  proof -
    fix a b show "fetches (a @ b) = fetches a @ fetches b"
      by (induction a rule: fetches.induct) simp_all
  qed
  have nhi: "nat (sint ?hi) = nat (sint filled) + nat k" using hi b k0 by linarith
  have l1: "length ?buf1 = length buf" using write_slice_len[OF ok] lbs nhi by simp
  from Cons.IH[OF rest] b l1
  have IH: "length buf' = length buf"
    "buf' = take (nat (sint ?hi)) ?buf1 @ concat (map ?g rest)
                @ drop (nat (sint ?hi) + sum_list (map span_len rest)) ?buf1"
    "nat (sint ?hi) + sum_list (map span_len rest) \<le> length buf"
    "fetches evs2 = map (\<lambda>sp. range_request u (resolve S sp) (span_len sp)) rest"
    "\<forall>sp \<in> set rest. 0 \<le> sint (size' sp) \<and> length (?g sp) = span_len sp"
    by auto
  have lf: "nat (sint filled) \<le> length buf" using b by linarith
  have t: "take (nat (sint ?hi)) ?buf1 = take (nat (sint filled)) buf @ bs"
    using lf lbs nhi by (simp add: write_slice_def)
  have dr: "drop (nat (sint ?hi) + sum_list (map span_len rest)) ?buf1
          = drop (nat (sint filled) + sum_list (map span_len (sp # rest))) buf"
    using lf lbs nhi sl by (simp add: write_slice_def add.commute add.left_commute)
  have c1: "length buf' = length buf" by (rule IH(1))
  have c2: "buf' = take (nat (sint filled)) buf @ concat (map ?g (sp # rest))
                @ drop (nat (sint filled) + sum_list (map span_len (sp # rest))) buf"
  proof -
    have "buf' = (take (nat (sint filled)) buf @ bs) @ concat (map ?g rest)
                @ drop (nat (sint filled) + sum_list (map span_len (sp # rest))) buf"
      using IH(2) by (simp only: t dr)
    then show ?thesis by (simp add: bs)
  qed
  have c3: "nat (sint filled) + sum_list (map span_len (sp # rest)) \<le> length buf"
    using IH(3) nhi sl by simp
  have c4: "fetches evs = map (\<lambda>sp. range_request u (resolve S sp) (span_len sp)) (sp # rest)"
    using evs f1 IH(4) by (simp add: fapp)
  have c5: "\<forall>sp \<in> set (sp # rest). 0 \<le> sint (size' sp) \<and> length (?g sp) = span_len sp"
    using IH(5) ssz k0 lbs bs sl by simp
  from c1 c2 c3 c4 c5 show ?case by blast
qed

subsection \<open>The size of the buffer\<close>

lemma size_span_len: "0 \<le> sint (size' sp) \<Longrightarrow> size' sp = word_of_nat (span_len sp)"
  by (simp add: span_len_def)

lemma foldl_total:
  "\<forall>sp \<in> set chunks. 0 \<le> sint (size' sp) \<Longrightarrow>
     foldl (\<lambda>t span. t + size' span) a chunks = a + word_of_nat (sum_list (map span_len chunks))"
proof (induction chunks arbitrary: a)
  case Nil
  show ?case by simp
next
  case (Cons sp rest)
  have "size' sp = word_of_nat (span_len sp)" using Cons.prems by (intro size_span_len) simp
  moreover have "foldl (\<lambda>t span. t + size' span) (a + size' sp) rest
       = a + size' sp + word_of_nat (sum_list (map span_len rest))"
    using Cons by simp
  ultimately show ?case by simp
qed

lemma totalBufferNeeded_sum:
  "\<forall>sp \<in> set chunks. 0 \<le> sint (size' sp) \<Longrightarrow>
     totalBufferNeeded chunks = word_of_nat (sum_list (map span_len chunks))"
  by (simp add: totalBufferNeeded_def foldl_total)

lemma make_bytes_exact:
  assumes mk: "make_bytes (totalBufferNeeded chunks) = Some buf0"
    and nn: "\<forall>sp \<in> set chunks. 0 \<le> sint (size' sp)"
    and le: "sum_list (map span_len chunks) \<le> length buf0"
  shows "length buf0 = sum_list (map span_len chunks)"
proof -
  let ?n = "sum_list (map span_len chunks)"
  let ?t = "totalBufferNeeded chunks"
  from mk have l: "length buf0 = nat (sint ?t)" and t0: "0 \<le> sint ?t"
    by (auto simp: make_bytes_def word_sless_alt split: if_splits)
  have "nat (sint ?t) < 2 ^ 63" using t0 sint_lt[of ?t] by (simp add: nat_less_iff)
  then have "length buf0 < 2 ^ 63" using l by simp
  then have "?n < 2 ^ 63" using le by (rule le_less_trans [rotated])
  then have "sint (word_of_nat ?n :: int64) = int ?n" by (rule sint_of_nat64)
  then show ?thesis using l totalBufferNeeded_sum[OF nn] by simp
qed

subsection \<open>What a successful remote read returns\<close>

lemma fetches_append: "fetches (a @ b) = fetches a @ fetches b"
  by (induction a rule: fetches.induct) simp_all

lemma readRemoteChunks_Ok_parts:
  assumes "readRemoteChunks w u m chunks = (evs, Ok (T, buf))"
  obtains res vs c cs buf0 evs' where
    "url_ok w u" "client_Do w (Request ''HEAD'' u []) = Some res"
    "header res ''Accept-Ranges'' = Some (''bytes'' # vs)"
    "header res ''Content-Length'' = Some (c # cs)" "ParseInt c = Inr T"
    "\<not> T <s m" "make_bytes (totalBufferNeeded chunks) = Some buf0"
    "readRemoteChunks_loop w u T chunks buf0 0 = (evs', Ok buf)"
    "evs = [Do (Request ''HEAD'' u []), Acquire (ResponseBody (Request ''HEAD'' u []))] @ evs'"
  using assms
  by (auto simp: readRemoteChunks_def Let_def after_def
      split: if_splits option.splits list.splits sum.splits result.splits prod.splits)

lemma readRemoteChunks_Ok:
  assumes "readRemoteChunks w u m chunks = (evs, Ok (T, buf))"
  shows "buf = concat (map (\<lambda>sp. remote_bytes w u (resolve T sp) (span_len sp)) chunks)
       \<and> (\<forall>sp \<in> set chunks. length (remote_bytes w u (resolve T sp) (span_len sp)) = span_len sp)
       \<and> fetches evs = map (\<lambda>sp. range_request u (resolve T sp) (span_len sp)) chunks
       \<and> \<not> T <s m
       \<and> (is_remote u \<longrightarrow> source_size w u = Some T)"
proof -
  from assms obtain res vs c cs buf0 evs' where
    u: "url_ok w u" and h: "client_Do w (Request ''HEAD'' u []) = Some res"
    and ar: "header res ''Accept-Ranges'' = Some (''bytes'' # vs)"
    and cl: "header res ''Content-Length'' = Some (c # cs)" and pi: "ParseInt c = Inr T"
    and m: "\<not> T <s m" and mk: "make_bytes (totalBufferNeeded chunks) = Some buf0"
    and loop: "readRemoteChunks_loop w u T chunks buf0 0 = (evs', Ok buf)"
    and evs: "evs = [Do (Request ''HEAD'' u []), Acquire (ResponseBody (Request ''HEAD'' u []))] @ evs'"
    by (rule readRemoteChunks_Ok_parts)
  let ?g = "\<lambda>sp. remote_bytes w u (resolve T sp) (span_len sp)"
  from readRemoteChunks_loop_Ok[OF loop]
  have b: "buf = concat (map ?g chunks) @ drop (sum_list (map span_len chunks)) buf0"
    and le: "sum_list (map span_len chunks) \<le> length buf0"
    and f: "fetches evs' = map (\<lambda>sp. range_request u (resolve T sp) (span_len sp)) chunks"
    and a: "\<forall>sp \<in> set chunks. 0 \<le> sint (size' sp) \<and> length (?g sp) = span_len sp"
    by simp_all
  have "length buf0 = sum_list (map span_len chunks)"
    using mk a le by (intro make_bytes_exact) auto
  then have c1: "buf = concat (map ?g chunks)" using b by simp
  have c3: "fetches evs = map (\<lambda>sp. range_request u (resolve T sp) (span_len sp)) chunks"
    using f by (simp add: evs)
  have c5: "is_remote u \<longrightarrow> source_size w u = Some T"
    using u h ar cl pi by (simp add: source_size_def)
  from c1 a c3 m c5 show ?thesis by blast
qed

subsection \<open>What a successful read returns\<close>

lemma readChunks_local_Ok_parts:
  assumes "readChunks w p m chunks = (evs, Ok (T, buf))" and "\<not> is_remote p"
  obtains f buf0 evs' where
    "os_Open w p = Some f" "stat_ok f" "T = word_of_nat (length (content f))"
    "\<not> T <s m" "make_bytes (totalBufferNeeded chunks) = Some buf0"
    "readChunks_loop f T chunks buf0 0 = (evs', Ok buf)"
    "evs = Acquire (FileHandle p) # evs'"
  using assms
  by (auto simp: readChunks_def is_remote_def Let_def after_def
      split: if_splits option.splits result.splits prod.splits)

lemma readChunks_local_Ok:
  assumes "readChunks w p m chunks = (evs, Ok (T, buf))" and nr: "\<not> is_remote p"
  obtains f where "os_Open w p = Some f" "stat_ok f" "T = word_of_nat (length (content f))"
    "\<not> T <s m"
    "buf = concat (map (\<lambda>sp. local_bytes f (resolve T sp) (span_len sp)) chunks)"
    "\<forall>sp \<in> set chunks. size' sp = 65536
        \<and> length (local_bytes f (resolve T sp) (span_len sp)) = span_len sp"
    "evs = Acquire (FileHandle p) # map (\<lambda>sp. PRead (resolve T sp) 65536) chunks"
proof -
  from assms obtain f buf0 evs' where
    op: "os_Open w p = Some f" and st: "stat_ok f" and T: "T = word_of_nat (length (content f))"
    and m: "\<not> T <s m" and mk: "make_bytes (totalBufferNeeded chunks) = Some buf0"
    and loop: "readChunks_loop f T chunks buf0 0 = (evs', Ok buf)"
    and evs: "evs = Acquire (FileHandle p) # evs'"
    by (rule readChunks_local_Ok_parts)
  from readChunks_loop_Ok[OF loop]
  have b: "buf = concat (map (\<lambda>sp. take 65536 (drop (nat (sint (resolve T sp))) (content f))) chunks)
              @ drop (65536 * length chunks) buf0"
    and le: "65536 * length chunks \<le> length buf0"
    and e: "evs' = map (\<lambda>sp. PRead (resolve T sp) 65536) chunks"
    and a: "\<forall>sp \<in> set chunks. size' sp = 65536 \<and> 0 \<le>s resolve T sp
            \<and> nat (sint (resolve T sp)) + 65536 \<le> length (content f)"
    by simp_all
  have sl: "\<forall>sp \<in> set chunks. span_len sp = 65536" using a by (simp add: span_len_def)
  then have sm: "sum_list (map span_len chunks) = 65536 * length chunks"
    by (induction chunks) simp_all
  have nn: "\<forall>sp \<in> set chunks. 0 \<le> sint (size' sp)" using a by simp
  have "length buf0 = sum_list (map span_len chunks)"
    using mk nn le sm by (intro make_bytes_exact) simp_all
  then have b': "buf = concat (map (\<lambda>sp. take 65536 (drop (nat (sint (resolve T sp))) (content f))) chunks)"
    using b sm by simp
  have eq: "map (\<lambda>sp. take 65536 (drop (nat (sint (resolve T sp))) (content f))) chunks
          = map (\<lambda>sp. local_bytes f (resolve T sp) (span_len sp)) chunks"
    using sl by (simp add: local_bytes_def)
  have c5: "buf = concat (map (\<lambda>sp. local_bytes f (resolve T sp) (span_len sp)) chunks)"
    using b' eq by simp
  have c6: "\<forall>sp \<in> set chunks. size' sp = 65536
        \<and> length (local_bytes f (resolve T sp) (span_len sp)) = span_len sp"
    using a sl by (auto simp: local_bytes_def)
  from that[OF op st T m c5 c6] evs e show thesis by simp
qed


subsection \<open>Segments of the buffer and the hash of a successful read\<close>

lemma length_concat_map:
  "\<forall>x \<in> set xs. length (g x) = h x \<Longrightarrow> length (concat (map g xs)) = sum_list (map h xs)"
  by (induction xs) simp_all


lemma readChunks_Ok_length:
  assumes rc: "readChunks w p m chunks = (evs, Ok (T, buf))"
  shows "length buf = sum_list (map span_len chunks)"
proof (cases "is_remote p")
  case True
  then have rr: "readRemoteChunks w p OSDBChunkSize chunks = (evs, Ok (T, buf))"
    using rc by (simp add: readChunks_def is_remote_def)
  from readRemoteChunks_Ok[OF rr]
  have "buf = concat (map (\<lambda>sp. remote_bytes w p (resolve T sp) (span_len sp)) chunks)"
    and "\<forall>sp \<in> set chunks. length (remote_bytes w p (resolve T sp) (span_len sp)) = span_len sp"
    by simp_all
  then show ?thesis by (simp add: length_concat_map)
next
  case False
  from readChunks_local_Ok[OF rc False] obtain f where
    "buf = concat (map (\<lambda>sp. local_bytes f (resolve T sp) (span_len sp)) chunks)"
    "\<forall>sp \<in> set chunks. size' sp = 65536
        \<and> length (local_bytes f (resolve T sp) (span_len sp)) = span_len sp"
    by blast
  then show ?thesis by (simp add: length_concat_map)
qed

lemma spans_len: "sum_list (map span_len spans) = 131072"
  by (simp add: spans_def span_len_def OSDBChunkSize_def)

lemma OSDBHashFile_Ok:
  assumes "readChunks w p OSDBChunkSize spans = (evs, Ok (T, buf))"
  shows "OSDBHashFile w p =
          (evs, Ok (Sprintf_016x
                      (sum_list (map (\<lambda>i. Uint64 (take 8 (drop (8 * i) buf))) [0..<16384]) + T)))"
proof -
  have "length buf = 131072" using readChunks_Ok_length[OF assms] spans_len by simp
  then show ?thesis using assms by (simp add: OSDBHashFile_def binary_Read_def foldl_sum)
qed

lemma OSDBHashFile_Err:
  "readChunks w p OSDBChunkSize spans = (evs, Err e) \<Longrightarrow> OSDBHashFile w p = (evs, Err e)"
  by (simp add: OSDBHashFile_def)

subsection \<open>The reads of OSDBHashFile\<close>

lemma source_size_remote:
  assumes "source_size w p = Some S" and "is_remote p"
  obtains res vs c cs where
    "url_ok w p" "client_Do w (Request ''HEAD'' p []) = Some res"
    "header res ''Accept-Ranges'' = Some (''bytes'' # vs)"
    "header res ''Content-Length'' = Some (c # cs)" "ParseInt c = Inr S"
  using assms
  by (auto simp: source_size_def split: if_splits option.splits list.splits sum.splits)

lemma source_size_local:
  assumes "source_size w p = Some S" and "\<not> is_remote p"
  obtains f where "os_Open w p = Some f" "stat_ok f" "length (content f) < 2 ^ 63"
    "S = word_of_nat (length (content f))"
  using assms
  by (auto simp: source_size_def split: if_splits option.splits)

lemma readRemoteChunk_fetch_ok:
  assumes "url_ok w u" and "client_Do w (range_request u off n) = Some resp"
    and "n \<le> length (body resp)"
  shows "readRemoteChunk w u off n =
           ([Do (range_request u off n), Acquire (ResponseBody (range_request u off n)),
             Release (ResponseBody (range_request u off n))],
            Ok (remote_bytes w u off n))"
  using assms
  by (simp add: readRemoteChunk_def range_request_def remote_bytes_def ReadFull_def after_def Let_def)

lemma readChunks_remote_spans:
  assumes ss: "source_size w p = Some S" and r: "is_remote p"
    and big: "\<not> S <s OSDBChunkSize"
    and f1: "fetch_ok w p 0 65536" and f2: "fetch_ok w p (S - 65536) 65536"
  shows "readChunks w p OSDBChunkSize spans =
           ([Do (Request ''HEAD'' p []), Acquire (ResponseBody (Request ''HEAD'' p [])),
             Do (range_request p 0 65536), Acquire (ResponseBody (range_request p 0 65536)),
             Release (ResponseBody (range_request p 0 65536)),
             Do (range_request p (S - 65536) 65536),
             Acquire (ResponseBody (range_request p (S - 65536) 65536)),
             Release (ResponseBody (range_request p (S - 65536) 65536))],
            Ok (S, remote_bytes w p 0 65536 @ remote_bytes w p (S - 65536) 65536))"
proof -
  from ss r obtain res vs c cs where
    u: "url_ok w p" and h: "client_Do w (Request ''HEAD'' p []) = Some res"
    and ar: "header res ''Accept-Ranges'' = Some (''bytes'' # vs)"
    and cl: "header res ''Content-Length'' = Some (c # cs)" and pi: "ParseInt c = Inr S"
    by (rule source_size_remote)
  from f1 r obtain resp1 where g1: "client_Do w (range_request p 0 65536) = Some resp1"
    and b1: "65536 \<le> length (body resp1)"
    by (auto simp: fetch_ok_def split: option.splits)
  from f2 r obtain resp2 where g2: "client_Do w (range_request p (S - 65536) 65536) = Some resp2"
    and b2: "65536 \<le> length (body resp2)"
    by (auto simp: fetch_ok_def split: option.splits)
  note c1 = readRemoteChunk_fetch_ok[OF u g1 b1]
  note c2 = readRemoteChunk_fetch_ok[OF u g2 b2]
  have l1: "length (remote_bytes w p 0 65536) = 65536"
    using g1 b1 by (simp add: remote_bytes_def)
  have l2: "length (remote_bytes w p (S - 65536) 65536) = 65536"
    using g2 b2 by (simp add: remote_bytes_def)
  have t: "totalBufferNeeded spans = 131072"
    by (simp add: totalBufferNeeded_def spans_def OSDBChunkSize_def)
  have m: "make_bytes 131072 = Some (replicate 131072 0)"
    by (simp add: make_bytes_def word_sless_alt)
  have neg: "(- 65536 :: int64) <s 0" by (simp add: word_sless_alt)
  have loop: "readRemoteChunks_loop w p S spans (replicate 131072 0) 0
        = ([Do (range_request p 0 65536), Acquire (ResponseBody (range_request p 0 65536)),
             Release (ResponseBody (range_request p 0 65536)),
             Do (range_request p (S - 65536) 65536),
             Acquire (ResponseBody (range_request p (S - 65536) 65536)),
             Release (ResponseBody (range_request p (S - 65536) 65536))],
           Ok (remote_bytes w p 0 65536 @ remote_bytes w p (S - 65536) 65536))"
    by (simp add: spans_def OSDBChunkSize_def slice_ok_def slice_def write_slice_def
        word_sle_eq c1 c2 l1 l2 after_def neg)
  show ?thesis
    using r u h ar cl pi big
    by (simp add: readChunks_def is_remote_def readRemoteChunks_def t m loop after_def Let_def)
qed

lemma readChunks_too_small:
  assumes ss: "source_size w p = Some S" and small: "S <s OSDBChunkSize"
  shows "readChunks w p OSDBChunkSize chunks =
           (if is_remote p
            then [Do (Request ''HEAD'' p []), Acquire (ResponseBody (Request ''HEAD'' p []))]
            else [Acquire (FileHandle p)],
            Err SourceTooSmallError)"
proof (cases "is_remote p")
  case True
  from ss True obtain res vs c cs where
    "url_ok w p" "client_Do w (Request ''HEAD'' p []) = Some res"
    "header res ''Accept-Ranges'' = Some (''bytes'' # vs)"
    "header res ''Content-Length'' = Some (c # cs)" "ParseInt c = Inr S"
    by (rule source_size_remote)
  then show ?thesis using True small
    by (simp add: readChunks_def is_remote_def readRemoteChunks_def after_def Let_def
        SourceTooSmallError_def)
next
  case False
  from ss False obtain f where "os_Open w p = Some f" "stat_ok f"
    "S = word_of_nat (length (content f))"
    by (rule source_size_local)
  then show ?thesis using False small
    by (simp add: readChunks_def is_remote_def after_def Let_def SourceTooSmallError_def)
qed

subsection \<open>The example worlds\<close>

lemma movie_local: "\<not> is_remote ''movie.mkv''"
  by (simp add: is_remote_def HasPrefix_def)

lemma local_world_open:
  "os_Open (local_world bs) ''movie.mkv'' = Some \<lparr>stat_ok = True, content = bs\<rparr>"
  by (simp add: local_world_def)

lemma local_world_size:
  "length bs < 2 ^ 63 \<Longrightarrow> source_size (local_world bs) ''movie.mkv'' = Some (word_of_nat (length bs))"
  by (simp add: source_size_def movie_local local_world_open)

lemma local_world_spans:
  assumes "65536 \<le> length bs" and "length bs < 2 ^ 63"
  shows "readChunks (local_world bs) ''movie.mkv'' OSDBChunkSize spans =
           ([Acquire (FileHandle ''movie.mkv''), PRead 0 65536,
             PRead (word_of_nat (length bs) - 65536) 65536],
            Ok (word_of_nat (length bs), take 65536 bs @ drop (length bs - 65536) bs))"
  using readChunks_local_spans[of "''movie.mkv''" "local_world bs" "\<lparr>stat_ok = True, content = bs\<rparr>"]
    assms movie_local
  by (simp add: is_remote_def local_world_open)

lemma zero_file_spans:
  assumes "65536 \<le> n" and "n < 2 ^ 63"
  shows "readChunks (local_world (replicate n 0)) ''movie.mkv'' OSDBChunkSize spans =
           ([Acquire (FileHandle ''movie.mkv''), PRead 0 65536, PRead (word_of_nat n - 65536) 65536],
            Ok (word_of_nat n, replicate 131072 0))"
proof -
  have "take 65536 (replicate n (0::byte)) @ drop (n - 65536) (replicate n 0)
        = replicate 65536 0 @ replicate 65536 0"
    using assms(1) by (simp add: min_def)
  also have "\<dots> = replicate (65536 + 65536) (0::byte)" by (rule replicate_add [symmetric])
  finally have "take 65536 (replicate n (0::byte)) @ drop (n - 65536) (replicate n 0)
        = replicate 131072 0" by simp
  then show ?thesis using local_world_spans[of "replicate n 0"] assms by simp
qed

lemma zero_buffer_words: "replicate 131072 (0::byte) = concat (map PutUint64 (replicate 16384 0))"
  using zero_words[of 16384] by simp

lemma zero_file_hash:
  assumes "65536 \<le> n" and "n < 2 ^ 63"
  shows "OSDBHashFile (local_world (replicate n 0)) ''movie.mkv'' =
           ([Acquire (FileHandle ''movie.mkv''), PRead 0 65536, PRead (word_of_nat n - 65536) 65536],
            Ok (Sprintf_016x (word_of_nat n)))"
proof -
  have "OSDBHashFile (local_world (replicate n 0)) ''movie.mkv'' =
           ([Acquire (FileHandle ''movie.mkv''), PRead 0 65536, PRead (word_of_nat n - 65536) 65536],
            Ok (Sprintf_016x (sum_list (take 16384 (replicate 16384 0)) + word_of_nat n)))"
    using zero_file_spans[OF assms]
    by (intro OSDBHashFile_words) (simp_all only: zero_buffer_words length_replicate order_refl)
  then show ?thesis by (simp add: sum_list_replicate)
qed

lemma zeros11: "replicate 11 CHR ''0'' = ''00000000000''"
  by (simp add: numeral_eq_Suc)

lemma hex_131072: "Sprintf_016x 131072 = ''0000000000020000''"
  by (simp add: Sprintf_016x_def hex_digits.simps zeros11)

lemma hex_131071: "Sprintf_016x 131071 = ''000000000001ffff''"
  by (simp add: Sprintf_016x_def hex_digits.simps zeros11)

subsection \<open>The example server\<close>

lemma movie_url_remote: "is_remote ''http://host/movie.mkv''"
  by (simp add: is_remote_def HasPrefix_def)

lemma ParseInt_131072: "ParseInt ''131072'' = Inr 131072"
  by (simp add: ParseInt_def digit_val_def Let_def)

lemma ParseInt_70000: "ParseInt ''70000'' = Inr 70000"
  by (simp add: ParseInt_def digit_val_def Let_def)

lemma ParseInt_100: "ParseInt ''100'' = Inr 100"
  by (simp add: ParseInt_def digit_val_def Let_def)

lemma ParseInt_abc: "ParseInt ''abc'' = Inl (NumError ErrSyntax)"
  by (simp add: ParseInt_def digit_val_def Let_def)

lemma remote_world_head:
  "client_Do (remote_world hs bs) (Request ''HEAD'' u []) =
     Some \<lparr>header = map_of hs, body = [], body_fault = False\<rparr>"
  by (simp add: remote_world_def)

lemma remote_world_get:
  "client_Do (remote_world hs bs) (range_request u off n) =
     Some \<lparr>header = Map.empty, body = bs, body_fault = False\<rparr>"
  by (simp add: remote_world_def range_request_def)

lemma remote_world_url: "url_ok (remote_world hs bs) u"
  by (simp add: remote_world_def)

lemma remote_world_size:
  "ParseInt c = Inr S \<Longrightarrow>
   source_size (remote_world [(''Accept-Ranges'', [''bytes'']), (''Content-Length'', [c])] bs)
     ''http://host/movie.mkv'' = Some S"
  by (simp add: source_size_def movie_url_remote remote_world_head remote_world_url)

lemma remote_world_fetch_ok:
  "n \<le> length bs \<Longrightarrow> fetch_ok (remote_world hs bs) ''http://host/movie.mkv'' off n"
  by (simp add: fetch_ok_def movie_url_remote remote_world_get)

lemma remote_world_bytes:
  "remote_bytes (remote_world hs bs) u off n = take n bs"
  by (simp add: remote_bytes_def remote_world_get)

lemma remote_zero_spans:
  assumes "ParseInt c = Inr S" and "\<not> S <s OSDBChunkSize"
  shows "snd (readChunks (remote_world [(''Accept-Ranges'', [''bytes'']), (''Content-Length'', [c])]
                  (replicate 65536 0)) ''http://host/movie.mkv'' OSDBChunkSize spans)
         = Ok (S, replicate 131072 0)"
proof -
  let ?w = "remote_world [(''Accept-Ranges'', [''bytes'']), (''Content-Length'', [c])] (replicate 65536 0)"
  have f: "\<And>off. fetch_ok ?w ''http://host/movie.mkv'' off 65536"
    by (rule remote_world_fetch_ok) simp
  have "replicate 65536 (0::byte) @ replicate 65536 0 = replicate (65536 + 65536) 0"
    by (rule replicate_add [symmetric])
  then have z: "replicate 65536 (0::byte) @ replicate 65536 0 = replicate 131072 0" by simp
  from readChunks_remote_spans[OF remote_world_size[OF assms(1)] movie_url_remote assms(2) f f]
  show ?thesis by (simp add: remote_world_bytes z)
qed

subsection \<open>The value of the rendered digits\<close>

lemma hex_digit_values: "map hex_digit_value ''0123456789abcdef'' = [0..<16]"
  by code_simp

lemma hex_digit_value_nth: "d < 16 \<Longrightarrow> hex_digit_value (''0123456789abcdef'' ! d) = d"
proof -
  assume d: "d < 16"
  have "hex_digit_value (''0123456789abcdef'' ! d) = map hex_digit_value ''0123456789abcdef'' ! d"
    using d by (subst nth_map) simp_all
  also have "\<dots> = [0..<16] ! d" by (simp only: hex_digit_values)
  also have "\<dots> = d" using d by simp
  finally show ?thesis .
qed

lemma hex_value_snoc: "hex_value (s @ [c]) = 16 * hex_value s + hex_digit_value c"
  by (simp add: hex_value_def)

lemma hex_value_hex_digits: "hex_value (hex_digits n) = n"
proof (induction n rule: hex_digits.induct)
  case (1 n)
  show ?case
  proof (cases "n < 16")
    case True
    then show ?thesis
      by (subst hex_digits.simps) (simp add: hex_value_def hex_digit_value_nth)
  next
    case False
    have "hex_value (hex_digits n)
          = 16 * hex_value (hex_digits (n div 16)) + hex_digit_value (''0123456789abcdef'' ! (n mod 16))"
      using False by (subst hex_digits.simps) (simp add: hex_value_snoc)
    also have "\<dots> = 16 * (n div 16) + n mod 16"
      using "1.IH"[OF False] by (simp add: hex_digit_value_nth)
    finally show ?thesis by simp
  qed
qed

lemma hex_value_zeros: "hex_value (replicate k CHR ''0'' @ s) = hex_value s"
proof -
  have "\<And>a. foldl (\<lambda>n c. 16 * n + hex_digit_value c) 0 (replicate k CHR ''0'') = 0"
    by (induction k) (simp_all add: hex_digit_value_def)
  then show ?thesis by (simp add: hex_value_def)
qed

lemma hex_value_Sprintf: "hex_value (Sprintf_016x v) = unat v"
  by (simp add: Sprintf_016x_def Let_def hex_value_zeros hex_value_hex_digits)

lemma hex_chars_nth:
  assumes "c \<in> hex_chars"
  obtains d where "d < 16" "c = ''0123456789abcdef'' ! d"
proof -
  from assms have "\<exists>d < length ''0123456789abcdef''. ''0123456789abcdef'' ! d = c"
    unfolding hex_chars_def in_set_conv_nth .
  then obtain d where "d < length ''0123456789abcdef''" "''0123456789abcdef'' ! d = c" by blast
  then have "d < 16" "c = ''0123456789abcdef'' ! d" by simp_all
  then show thesis by (rule that)
qed

lemma hex_digit_value_inj:
  assumes "c \<in> hex_chars" "c' \<in> hex_chars" "hex_digit_value c = hex_digit_value c'"
  shows "c = c'"
proof -
  from assms(1) obtain d where d: "d < 16" "c = ''0123456789abcdef'' ! d" by (rule hex_chars_nth)
  from assms(2) obtain d' where d': "d' < 16" "c' = ''0123456789abcdef'' ! d'" by (rule hex_chars_nth)
  from assms(3) d d' have "d = d'" by (simp add: hex_digit_value_nth)
  then show ?thesis using d d' by simp
qed

lemma hex_digit_value_less: "c \<in> hex_chars \<Longrightarrow> hex_digit_value c < 16"
  by (erule hex_chars_nth) (simp add: hex_digit_value_nth)

lemma hex_value_unique:
  "length s = length s' \<Longrightarrow> set s \<subseteq> hex_chars \<Longrightarrow> set s' \<subseteq> hex_chars \<Longrightarrow>
     hex_value s = hex_value s' \<Longrightarrow> s = s'"
proof (induction s arbitrary: s' rule: rev_induct)
  case Nil
  then show ?case by simp
next
  case (snoc c s)
  from snoc.prems(1) obtain t c' where s': "s' = t @ [c']"
    by (cases s' rule: rev_cases) auto
  have c: "hex_digit_value c < 16" "hex_digit_value c' < 16"
    using snoc.prems(2,3) s' by (auto intro: hex_digit_value_less)
  have "16 * hex_value s + hex_digit_value c = 16 * hex_value t + hex_digit_value c'"
    using snoc.prems(4) s' by (simp add: hex_value_snoc)
  with c have e: "hex_value s = hex_value t" "hex_digit_value c = hex_digit_value c'" by presburger+
  have "s = t" using snoc.IH[of t] snoc.prems s' e(1) by simp
  moreover have "c = c'" using snoc.prems(2,3) s' e(2) by (intro hex_digit_value_inj) auto
  ultimately show ?case using s' by simp
qed

subsection \<open>A file that is not all zero\<close>

lemma PutUint64_example: "PutUint64 0x0807060504030201 = [1, 2, 3, 4, 5, 6, 7, 8]"
  by (simp add: PutUint64_def)

lemma counting_file_words:
  "[1, 2, 3, 4, 5, 6, 7, 8] @ replicate 131064 (0::byte)
     = concat (map PutUint64 (0x0807060504030201 # replicate 16383 0))"
proof -
  have "concat (map PutUint64 (replicate 16383 0)) = replicate 131064 (0::byte)"
    using zero_words[of 16383] by simp
  then show ?thesis by (simp only: list.map concat.simps PutUint64_example)
qed

lemma counting_file_spans:
  "readChunks (local_world ([1, 2, 3, 4, 5, 6, 7, 8] @ replicate 131064 0)) ''movie.mkv''
     OSDBChunkSize spans
   = ([Acquire (FileHandle ''movie.mkv''), PRead 0 65536, PRead 65536 65536],
      Ok (131072, [1, 2, 3, 4, 5, 6, 7, 8] @ replicate 131064 0))"
proof -
  let ?c = "[1, 2, 3, 4, 5, 6, 7, 8] @ replicate 131064 (0::byte)"
  have l: "length ?c = 131072" by simp
  have "take 65536 ?c @ drop (length ?c - 65536) ?c = take 65536 ?c @ drop 65536 ?c"
    by (simp only: l) simp
  then have t: "take 65536 ?c @ drop (length ?c - 65536) ?c = ?c"
    by (simp only: append_take_drop_id)
  from local_world_spans[of ?c] show ?thesis
    by (simp only: t) (simp only: l, simp)
qed

lemma hex_value_0000000000020000: "hex_value ''0000000000020000'' = 131072"
  by (simp add: hex_value_def hex_digit_value_def)

lemma hex_value_0807060504050201: "hex_value ''0807060504050201'' = 0x0807060504050201"
  by (simp add: hex_value_def hex_digit_value_def)

lemma hex_string_ok:
  "length ''0000000000020000'' = 16" "set ''0000000000020000'' \<subseteq> hex_chars"
  "length ''0807060504050201'' = 16" "set ''0807060504050201'' \<subseteq> hex_chars"
  by (simp_all add: hex_chars_def)

subsection \<open>Decimal numerals and range headers\<close>











subsection \<open>A server that honours ranges\<close>












section \<open>The claims\<close>

subsection \<open>Rejection of servers without byte ranges\<close>

text \<open>
  Claim C8. When the response to \<^verbatim>\<open>HEAD\<close> has no header \<^verbatim>\<open>Accept-Ranges\<close>, or one
  whose first value is not \<^verbatim>\<open>bytes\<close>, the remote chunk reader fails with
  \<open>RangeUnsupportedError\<close>, and the run has sent no \<^verbatim>\<open>GET\<close> request: no range is fetched.
\<close>

theorem no_accept_ranges_bytes_rejected:
  assumes "url_ok w u"
    and "client_Do w (Request ''HEAD'' u []) = Some res"
    and "header res ''Accept-Ranges'' = None
         \<or> (\<exists>v vs. header res ''Accept-Ranges'' = Some (v # vs) \<and> v \<noteq> ''bytes'')"
  shows "snd (readRemoteChunks w u minimumRequiredSize chunks) = Err RangeUnsupportedError
       \<and> fetches (fst (readRemoteChunks w u minimumRequiredSize chunks)) = []"
  using assms
  by (auto simp: readRemoteChunks_def RangeUnsupportedError_def after_def Let_def)

theorem no_accept_ranges_bytes_rejected_witness:
  "url_ok (remote_world [(''Content-Length'', [''131072''])] []) ''http://host/movie.mkv''
   \<and> client_Do (remote_world [(''Content-Length'', [''131072''])] [])
        (Request ''HEAD'' ''http://host/movie.mkv'' [])
      = Some \<lparr>header = map_of [(''Content-Length'', [''131072''])], body = [], body_fault = False\<rparr>
   \<and> map_of [(''Content-Length'', [''131072''])] ''Accept-Ranges'' = None
   \<and> snd (readRemoteChunks (remote_world [(''Content-Length'', [''131072''])] [])
             ''http://host/movie.mkv'' OSDBChunkSize spans) = Err RangeUnsupportedError
   \<and> fetches (fst (readRemoteChunks (remote_world [(''Content-Length'', [''131072''])] [])
             ''http://host/movie.mkv'' OSDBChunkSize spans)) = []"
proof -
  let ?w = "remote_world [(''Content-Length'', [''131072''])] []"
  let ?res = "\<lparr>header = map_of [(''Content-Length'', [''131072''])], body = [], body_fault = False\<rparr>"
  have a: "url_ok ?w ''http://host/movie.mkv''" by (simp add: remote_world_def)
  have b: "client_Do ?w (Request ''HEAD'' ''http://host/movie.mkv'' []) = Some ?res"
    by (simp add: remote_world_def)
  have c: "map_of [(''Content-Length'', [''131072''])] ''Accept-Ranges'' = None" by simp
  have d: "header ?res ''Accept-Ranges'' = None
         \<or> (\<exists>v vs. header ?res ''Accept-Ranges'' = Some (v # vs) \<and> v \<noteq> ''bytes'')"
    by simp
  from no_accept_ranges_bytes_rejected [OF a b d, of OSDBChunkSize spans] a b c
  show ?thesis by simp
qed

text \<open>
  Claim C10. A header \<^verbatim>\<open>Accept-Ranges\<close> that is present with a first value other than
  \<^verbatim>\<open>bytes\<close>, such as \<^verbatim>\<open>none\<close>, is rejected with \<open>RangeUnsupportedError\<close> as well: the
  run consists of the \<^verbatim>\<open>HEAD\<close> request and its response alone.
\<close>

theorem accept_ranges_other_value_rejected:
  assumes "url_ok w u"
    and "client_Do w (Request ''HEAD'' u []) = Some res"
    and "header res ''Accept-Ranges'' = Some (v # vs)"
    and "v \<noteq> ''bytes''"
  shows "readRemoteChunks w u minimumRequiredSize chunks
         = ([Do (Request ''HEAD'' u []), Acquire (ResponseBody (Request ''HEAD'' u []))],
            Err RangeUnsupportedError)"
  using assms
  by (simp add: readRemoteChunks_def RangeUnsupportedError_def after_def Let_def)

theorem accept_ranges_other_value_rejected_witness:
  "url_ok (remote_world [(''Accept-Ranges'', [''none'']), (''Content-Length'', [''131072''])] [])
     ''http://host/movie.mkv''
   \<and> client_Do (remote_world [(''Accept-Ranges'', [''none'']), (''Content-Length'', [''131072''])] [])
        (Request ''HEAD'' ''http://host/movie.mkv'' [])
      = Some \<lparr>header = map_of [(''Accept-Ranges'', [''none'']), (''Content-Length'', [''131072''])],
               body = [], body_fault = False\<rparr>
   \<and> map_of [(''Accept-Ranges'', [''none'']), (''Content-Length'', [''131072''])] ''Accept-Ranges''
      = Some [''none'']
   \<and> ''none'' \<noteq> ''bytes''
   \<and> readRemoteChunks
        (remote_world [(''Accept-Ranges'', [''none'']), (''Content-Length'', [''131072''])] [])
        ''http://host/movie.mkv'' OSDBChunkSize spans
      = ([Do (Request ''HEAD'' ''http://host/movie.mkv'' []),
          Acquire (ResponseBody (Request ''HEAD'' ''http://host/movie.mkv'' []))],
         Err RangeUnsupportedError)"
proof -
  let ?hs = "[(''Accept-Ranges'', [''none'']), (''Content-Length'', [''131072''])]"
  let ?w = "remote_world ?hs []"
  let ?res = "\<lparr>header = map_of ?hs, body = [], body_fault = False\<rparr>"
  have a: "url_ok ?w ''http://host/movie.mkv''" by (simp add: remote_world_def)
  have b: "client_Do ?w (Request ''HEAD'' ''http://host/movie.mkv'' []) = Some ?res"
    by (simp add: remote_world_def)
  have c: "header ?res ''Accept-Ranges'' = Some [''none'']" by simp
  have d: "''none'' \<noteq> ''bytes''" by simp
  from accept_ranges_other_value_rejected [OF a b c d, of OSDBChunkSize spans] a b c d
  show ?thesis by simp
qed

subsection \<open>Sources that are too small\<close>

text \<open>
  Claim C1, amended. The minimum that \<^verbatim>\<open>OSDBHashFile\<close> passes to the chunk reader is
  \<^verbatim>\<open>OSDBChunkSize\<close>, 65536, not 131072. For every source whose total size \<open>S\<close> is
  less than 65536, \<^verbatim>\<open>OSDBHashFile\<close> fails with \<open>SourceTooSmallError\<close>, and the run
  has only opened the file, or sent \<^verbatim>\<open>HEAD\<close>: nothing is read and no buffer is hashed.
\<close>

theorem small_source_rejected:
  assumes "source_size w p = Some S" and "S <s OSDBChunkSize"
  shows "OSDBHashFile w p =
           (if is_remote p
            then [Do (Request ''HEAD'' p []), Acquire (ResponseBody (Request ''HEAD'' p []))]
            else [Acquire (FileHandle p)],
            Err SourceTooSmallError)"
  using readChunks_too_small[OF assms, of spans] by (rule OSDBHashFile_Err)

theorem small_source_rejected_witness:
  "source_size (local_world (replicate 65535 0)) ''movie.mkv'' = Some 65535
   \<and> (65535 :: int64) <s OSDBChunkSize
   \<and> OSDBHashFile (local_world (replicate 65535 0)) ''movie.mkv''
       = ([Acquire (FileHandle ''movie.mkv'')], Err SourceTooSmallError)"
proof -
  have a: "source_size (local_world (replicate 65535 0)) ''movie.mkv'' = Some 65535"
    using local_world_size[of "replicate 65535 0"] by simp
  have b: "(65535 :: int64) <s OSDBChunkSize" by (simp add: OSDBChunkSize_def)
  from small_source_rejected [OF a b] a b show ?thesis by (simp add: movie_local)
qed

text \<open>
  Claim C1 as stated fails: a file of 131071 zero bytes, one byte short of 131072, is
  not rejected. Its first 65536 bytes and its last 65536 bytes, which overlap, are
  hashed, and the result is the size 131071 in hexadecimal.
\<close>

theorem file_of_131071_bytes_is_hashed:
  "source_size (local_world (replicate 131071 0)) ''movie.mkv'' = Some 131071
   \<and> (131071 :: int64) <s 131072
   \<and> snd (OSDBHashFile (local_world (replicate 131071 0)) ''movie.mkv'') = Ok ''000000000001ffff''
   \<and> snd (OSDBHashFile (local_world (replicate 131071 0)) ''movie.mkv'') \<noteq> Err SourceTooSmallError"
proof -
  have a: "source_size (local_world (replicate 131071 0)) ''movie.mkv'' = Some 131071"
    using local_world_size[of "replicate 131071 0"] by simp
  have b: "(131071 :: int64) <s 131072" by simp
  have "snd (OSDBHashFile (local_world (replicate 131071 0)) ''movie.mkv'') = Ok (Sprintf_016x 131071)"
    using zero_file_hash[of 131071] by simp
  then have c: "snd (OSDBHashFile (local_world (replicate 131071 0)) ''movie.mkv'') = Ok ''000000000001ffff''"
    by (simp only: hex_131071)
  from a b c show ?thesis by simp
qed

subsection \<open>Sources that are large enough\<close>

text \<open>
  Claim C2. For every source, local or remote, whose total size \<open>S\<close> is at least 131072
  and whose two reads (of 65536 bytes at 0 and at \<open>S - 65536\<close>) succeed,
  \<^verbatim>\<open>OSDBHashFile\<close> returns no error but a string of exactly 16 characters, each of them
  one of \<^verbatim>\<open>0123456789abcdef\<close>.
\<close>

theorem large_source_hashes:
  assumes ss: "source_size w p = Some S" and big: "131072 \<le>s S"
    and f1: "fetch_ok w p 0 65536" and f2: "fetch_ok w p (S - 65536) 65536"
  shows "\<exists>h. snd (OSDBHashFile w p) = Ok h \<and> length h = 16 \<and> set h \<subseteq> hex_chars"
proof -
  have nb: "\<not> S <s OSDBChunkSize"
    using big by (simp add: OSDBChunkSize_def word_sle_eq word_sless_alt)
  have "\<exists>evs buf. readChunks w p OSDBChunkSize spans = (evs, Ok (S, buf))"
  proof (cases "is_remote p")
    case True
    from readChunks_remote_spans[OF ss True nb f1 f2] show ?thesis by blast
  next
    case False
    from ss False obtain f where f: "os_Open w p = Some f" "stat_ok f"
      "length (content f) < 2 ^ 63" "S = word_of_nat (length (content f))"
      by (rule source_size_local)
    have "sint S = int (length (content f))" using f(3,4) by (simp add: sint_of_nat64)
    then have "65536 \<le> length (content f)" using big by (simp add: word_sle_eq)
    from readChunks_local_spans[OF _ f(1,2) this f(3)] False f(4)
    show ?thesis by (simp add: is_remote_def)
  qed
  then obtain evs buf where "readChunks w p OSDBChunkSize spans = (evs, Ok (S, buf))" by blast
  from OSDBHashFile_Ok[OF this] show ?thesis
    by (simp add: Sprintf_016x_length Sprintf_016x_chars)
qed

theorem large_source_hashes_witness:
  "(source_size (local_world (replicate 131072 0)) ''movie.mkv'' = Some 131072
    \<and> (131072 :: int64) \<le>s 131072
    \<and> fetch_ok (local_world (replicate 131072 0)) ''movie.mkv'' 0 65536
    \<and> fetch_ok (local_world (replicate 131072 0)) ''movie.mkv'' (131072 - 65536) 65536
    \<and> (\<exists>h. snd (OSDBHashFile (local_world (replicate 131072 0)) ''movie.mkv'') = Ok h
           \<and> length h = 16 \<and> set h \<subseteq> hex_chars))
   \<and> (source_size
         (remote_world [(''Accept-Ranges'', [''bytes'']), (''Content-Length'', [''131072''])]
            (replicate 65536 0)) ''http://host/movie.mkv'' = Some 131072
       \<and> fetch_ok
           (remote_world [(''Accept-Ranges'', [''bytes'']), (''Content-Length'', [''131072''])]
              (replicate 65536 0)) ''http://host/movie.mkv'' 0 65536
       \<and> fetch_ok
           (remote_world [(''Accept-Ranges'', [''bytes'']), (''Content-Length'', [''131072''])]
              (replicate 65536 0)) ''http://host/movie.mkv'' (131072 - 65536) 65536
       \<and> (\<exists>h. snd (OSDBHashFile
                      (remote_world [(''Accept-Ranges'', [''bytes'']), (''Content-Length'', [''131072''])]
                         (replicate 65536 0)) ''http://host/movie.mkv'') = Ok h
              \<and> length h = 16 \<and> set h \<subseteq> hex_chars))"
proof -
  let ?w = "local_world (replicate 131072 0)"
  let ?r = "remote_world [(''Accept-Ranges'', [''bytes'']), (''Content-Length'', [''131072''])]
              (replicate 65536 0)"
  have a: "source_size ?w ''movie.mkv'' = Some 131072"
    using local_world_size[of "replicate 131072 0"] by simp
  have b: "(131072 :: int64) \<le>s 131072" by simp
  have c: "fetch_ok ?w ''movie.mkv'' 0 65536"
    by (simp add: fetch_ok_def movie_local local_world_open)
  have d: "fetch_ok ?w ''movie.mkv'' (131072 - 65536) 65536"
    by (simp add: fetch_ok_def movie_local local_world_open word_sle_eq)
  have a': "source_size ?r ''http://host/movie.mkv'' = Some 131072"
    by (rule remote_world_size) (rule ParseInt_131072)
  have c': "fetch_ok ?r ''http://host/movie.mkv'' 0 65536"
    by (rule remote_world_fetch_ok) simp
  have d': "fetch_ok ?r ''http://host/movie.mkv'' (131072 - 65536) 65536"
    by (rule remote_world_fetch_ok) simp
  from large_source_hashes [OF a b c d] large_source_hashes [OF a' b c' d'] a b c d a' c' d'
  show ?thesis by blast
qed

subsection \<open>The hash of the fetched buffer\<close>

text \<open>
  Claim C3. Whenever the chunk reader returns to \<^verbatim>\<open>OSDBHashFile\<close> the total size \<open>T\<close> and
  a buffer that consists of the eight-byte little-endian words \<open>ws\<close>, whose sum with
  64-bit wrap-around is \<open>X\<close>, the result is a string of 16 characters of
  \<^verbatim>\<open>0123456789abcdef\<close> that denotes, as a hexadecimal numeral, the number
  \<open>(X + T) mod 2 ^ 64\<close>. By \<open>hex_value_unique\<close> there is one such string. The fetched
  buffer always has 16384 words. An all-zero file of 131072 bytes hashes to
  \<^verbatim>\<open>0000000000020000\<close>, and the file of the bytes 1 to 8 followed by zeros, of the same
  size, to \<^verbatim>\<open>0807060504050201\<close>.
\<close>

theorem hash_is_sum_of_words_plus_size:
  assumes rc: "readChunks w p OSDBChunkSize spans = (evs, Ok (T, buf))"
    and ws: "buf = concat (map PutUint64 ws)"
    and X: "sum_list ws = X"
  shows "\<exists>h. OSDBHashFile w p = (evs, Ok h)
            \<and> length h = 16 \<and> set h \<subseteq> hex_chars
            \<and> hex_value h = (unat X + unat T) mod 2 ^ 64
            \<and> length ws = 16384"
proof -
  have "length buf = 131072" using readChunks_Ok_length[OF rc] spans_len by simp
  moreover have "length buf = 8 * length ws"
    unfolding ws by (rule concat_blocks_length) (simp add: PutUint64_length)
  ultimately have n: "length ws = 16384" by simp
  from OSDBHashFile_words[OF rc[unfolded ws]] n X
  have h: "OSDBHashFile w p = (evs, Ok (Sprintf_016x (X + T)))" by simp
  have v: "hex_value (Sprintf_016x (X + T)) = (unat X + unat T) mod 2 ^ 64"
    by (simp add: hex_value_Sprintf unat_word_ariths)
  from h v n Sprintf_016x_length[of "X + T"] Sprintf_016x_chars[of "X + T"]
  show ?thesis by blast
qed

theorem hash_is_sum_of_words_plus_size_witness:
  "(readChunks (local_world (replicate 131072 0)) ''movie.mkv'' OSDBChunkSize spans
      = ([Acquire (FileHandle ''movie.mkv''), PRead 0 65536, PRead 65536 65536],
         Ok (131072, replicate 131072 0))
    \<and> replicate 131072 (0::byte) = concat (map PutUint64 (replicate 16384 0))
    \<and> sum_list (replicate 16384 (0::uint64)) = 0
    \<and> OSDBHashFile (local_world (replicate 131072 0)) ''movie.mkv''
        = ([Acquire (FileHandle ''movie.mkv''), PRead 0 65536, PRead 65536 65536],
           Ok ''0000000000020000''))
   \<and> (readChunks (local_world ([1, 2, 3, 4, 5, 6, 7, 8] @ replicate 131064 0)) ''movie.mkv''
         OSDBChunkSize spans
       = ([Acquire (FileHandle ''movie.mkv''), PRead 0 65536, PRead 65536 65536],
          Ok (131072, [1, 2, 3, 4, 5, 6, 7, 8] @ replicate 131064 0))
     \<and> [1, 2, 3, 4, 5, 6, 7, 8] @ replicate 131064 (0::byte)
         = concat (map PutUint64 (0x0807060504030201 # replicate 16383 0))
     \<and> sum_list (0x0807060504030201 # replicate 16383 (0::uint64)) = 0x0807060504030201
     \<and> OSDBHashFile (local_world ([1, 2, 3, 4, 5, 6, 7, 8] @ replicate 131064 0)) ''movie.mkv''
         = ([Acquire (FileHandle ''movie.mkv''), PRead 0 65536, PRead 65536 65536],
            Ok ''0807060504050201''))"
proof -
  let ?evs = "[Acquire (FileHandle ''movie.mkv''), PRead 0 65536, PRead 65536 65536]"
  have a: "readChunks (local_world (replicate 131072 0)) ''movie.mkv'' OSDBChunkSize spans
     = (?evs, Ok (131072, replicate 131072 0))"
    using zero_file_spans[of 131072] by simp
  have c: "sum_list (replicate 16384 (0::uint64)) = 0" by (simp add: sum_list_replicate)
  from hash_is_sum_of_words_plus_size [OF a zero_buffer_words c]
  obtain h where h: "OSDBHashFile (local_world (replicate 131072 0)) ''movie.mkv'' = (?evs, Ok h)"
    "length h = 16" "set h \<subseteq> hex_chars"
    "hex_value h = (unat (0::uint64) + unat (131072::int64)) mod 2 ^ 64" by blast
  have "hex_value h = hex_value ''0000000000020000''"
    using h(4) by (simp add: hex_value_0000000000020000)
  then have "h = ''0000000000020000''"
    using h(2,3) hex_string_ok(1,2) by (intro hex_value_unique) simp_all
  then have d: "OSDBHashFile (local_world (replicate 131072 0)) ''movie.mkv''
       = (?evs, Ok ''0000000000020000'')" using h(1) by simp
  have c': "sum_list (0x0807060504030201 # replicate 16383 (0::uint64)) = 0x0807060504030201"
    by (simp add: sum_list_replicate)
  from hash_is_sum_of_words_plus_size [OF counting_file_spans counting_file_words c']
  obtain k where k: "OSDBHashFile (local_world ([1, 2, 3, 4, 5, 6, 7, 8] @ replicate 131064 0))
        ''movie.mkv'' = (?evs, Ok k)"
    "length k = 16" "set k \<subseteq> hex_chars"
    "hex_value k = (unat (0x0807060504030201::uint64) + unat (131072::int64)) mod 2 ^ 64" by blast
  have "hex_value k = hex_value ''0807060504050201''"
    using k(4) by (simp add: hex_value_0807060504050201)
  then have "k = ''0807060504050201''"
    using k(2,3) hex_string_ok(3,4) by (intro hex_value_unique) simp_all
  then have d': "OSDBHashFile (local_world ([1, 2, 3, 4, 5, 6, 7, 8] @ replicate 131064 0))
        ''movie.mkv'' = (?evs, Ok ''0807060504050201'')" using k(1) by simp
  from a zero_buffer_words c d counting_file_spans counting_file_words c' d'
  show ?thesis by blast
qed

subsection \<open>Offsets from the end of the source\<close>



subsection \<open>Where the code departs from the claims\<close>

text \<open>
  Claim C4 does not hold for a URL: \<^verbatim>\<open>readChunks\<close> hands \<^verbatim>\<open>OSDBChunkSize\<close> to
  \<^verbatim>\<open>readRemoteChunks\<close> in place of its own \<^verbatim>\<open>minimumRequiredSize\<close>. A remote source of
  70000 bytes passes the validation against a required minimum of 131072, and
  one of 100 bytes is rejected against a required minimum of 0.
\<close>

theorem url_minimum_is_not_the_argument:
  "source_size
     (remote_world [(''Accept-Ranges'', [''bytes'']), (''Content-Length'', [''70000''])]
        (replicate 65536 0)) ''http://host/movie.mkv'' = Some 70000
   \<and> (70000 :: int64) <s 131072
   \<and> snd (readChunks
            (remote_world [(''Accept-Ranges'', [''bytes'']), (''Content-Length'', [''70000''])]
               (replicate 65536 0)) ''http://host/movie.mkv'' 131072 spans)
       = Ok (70000, replicate 131072 0)
   \<and> source_size
       (remote_world [(''Accept-Ranges'', [''bytes'']), (''Content-Length'', [''100''])] [])
       ''http://host/movie.mkv'' = Some 100
   \<and> \<not> (100 :: int64) <s 0
   \<and> snd (readChunks
            (remote_world [(''Accept-Ranges'', [''bytes'']), (''Content-Length'', [''100''])] [])
            ''http://host/movie.mkv'' 0 spans)
       = Err SourceTooSmallError"
proof -
  let ?w = "remote_world [(''Accept-Ranges'', [''bytes'']), (''Content-Length'', [''70000''])]
              (replicate 65536 0)"
  let ?v = "remote_world [(''Accept-Ranges'', [''bytes'']), (''Content-Length'', [''100''])] []"
  let ?u = "''http://host/movie.mkv''"
  have r: "\<And>w m cs. readChunks w ?u m cs = readChunks w ?u OSDBChunkSize cs"
    using movie_url_remote by (simp add: readChunks_def is_remote_def)
  have a: "source_size ?w ?u = Some 70000" by (rule remote_world_size) (rule ParseInt_70000)
  have b: "(70000 :: int64) <s 131072" by simp
  have "snd (readChunks ?w ?u OSDBChunkSize spans) = Ok (70000, replicate 131072 0)"
    by (rule remote_zero_spans) (simp_all add: ParseInt_70000 OSDBChunkSize_def)
  then have c: "snd (readChunks ?w ?u 131072 spans) = Ok (70000, replicate 131072 0)"
    by (simp only: r [of ?w 131072 spans])
  have d: "source_size ?v ?u = Some 100" by (rule remote_world_size) (rule ParseInt_100)
  have e: "\<not> (100 :: int64) <s 0" by (simp add: word_sless_alt)
  have "snd (readChunks ?v ?u OSDBChunkSize spans) = Err SourceTooSmallError"
    using readChunks_too_small[OF d, of spans] by (simp add: OSDBChunkSize_def)
  then have f: "snd (readChunks ?v ?u 0 spans) = Err SourceTooSmallError"
    by (simp only: r [of ?v 0 spans])
  from a b c d e f show ?thesis by blast
qed

text \<open>
  Claim C6 holds for a \<^verbatim>\<open>Content-Length\<close> that does not parse, and fails for one that is
  missing: \<^verbatim>\<open>header["Content-Length"][0]\<close> indexes the nil slice, and the run ends in
  a panic instead of an error value.
\<close>

theorem missing_content_length_panics:
  "snd (readRemoteChunks (remote_world [(''Accept-Ranges'', [''bytes''])] [])
          ''http://host/movie.mkv'' OSDBChunkSize spans) = Panic IndexOutOfRange
   \<and> snd (readRemoteChunks
            (remote_world [(''Accept-Ranges'', [''bytes'']), (''Content-Length'', [''abc''])] [])
            ''http://host/movie.mkv'' OSDBChunkSize spans) = Err (NumError ErrSyntax)
   \<and> MalformedResponseError (NumError ErrSyntax)"
  by (simp add: readRemoteChunks_def remote_world_head remote_world_url after_def Let_def
      ParseInt_abc)

text \<open>
  Claim C7 fails for a span whose size is not 65536: \<^verbatim>\<open>readChunk\<close> compares the number
  of bytes read with \<^verbatim>\<open>OSDBChunkSize\<close>, not with the length of the buffer. A positioned
  read of 8 bytes that returns 8 bytes and no error is reported as \<^verbatim>\<open>invalid read 8\<close>.
\<close>

theorem full_read_of_8_bytes_is_rejected:
  "ReadAt \<lparr>stat_ok = True, content = replicate 16 0\<rparr> 8 0 = (8, replicate 8 0, None)
   \<and> readChunk \<lparr>stat_ok = True, content = replicate 16 0\<rparr> 0 8
       = ([PRead 0 8], Err (ErrorsNew ''invalid read 8''))
   \<and> snd (readChunks (local_world (replicate 16 0)) ''movie.mkv'' 0 [\<lparr>offset = 0, size' = 8\<rparr>])
       = Err (ErrorsNew ''invalid read 8'')"
proof -
  have i: "Itoa 8 = ''8''" by (simp add: Itoa_def digits10.simps)
  have a: "ReadAt \<lparr>stat_ok = True, content = replicate 16 0\<rparr> 8 0 = (8, replicate 8 0, None)"
    by (simp add: ReadAt_def)
  have b: "readChunk \<lparr>stat_ok = True, content = replicate 16 0\<rparr> 0 8
       = ([PRead 0 8], Err (ErrorsNew ''invalid read 8''))"
    by (simp add: readChunk_def a OSDBChunkSize_def i)
  have c: "snd (readChunks (local_world (replicate 16 0)) ''movie.mkv'' 0 [\<lparr>offset = 0, size' = 8\<rparr>])
       = Err (ErrorsNew ''invalid read 8'')"
    using movie_local
    by (simp add: readChunks_def is_remote_def local_world_open after_def Let_def
        totalBufferNeeded_def make_bytes_def slice_ok_def slice_def word_sle_eq word_sless_alt b)
  from a b c show ?thesis by blast
qed

text \<open>
  Claim C9 holds for the bodies of the \<^verbatim>\<open>GET\<close> responses, which the deferred
  \<^verbatim>\<open>resp.Body.Close()\<close> releases, and fails for the file that \<^verbatim>\<open>os.Open\<close> returned and
  for the response to \<^verbatim>\<open>HEAD\<close>: nothing closes them, so they are still held when the
  chunk reader returns, here on a successful run over a file and over a URL.
\<close>

theorem file_and_head_response_stay_open:
  "snd (readChunks (local_world (replicate 131072 0)) ''movie.mkv'' OSDBChunkSize spans)
     = Ok (131072, replicate 131072 0)
   \<and> unreleased (fst (readChunks (local_world (replicate 131072 0)) ''movie.mkv'' OSDBChunkSize spans))
     = [FileHandle ''movie.mkv'']
   \<and> snd (readChunks
            (remote_world [(''Accept-Ranges'', [''bytes'']), (''Content-Length'', [''131072''])]
               (replicate 65536 0)) ''http://host/movie.mkv'' OSDBChunkSize spans)
     = Ok (131072, replicate 131072 0)
   \<and> unreleased (fst (readChunks
            (remote_world [(''Accept-Ranges'', [''bytes'']), (''Content-Length'', [''131072''])]
               (replicate 65536 0)) ''http://host/movie.mkv'' OSDBChunkSize spans))
     = [ResponseBody (Request ''HEAD'' ''http://host/movie.mkv'' [])]"
proof -
  let ?r = "remote_world [(''Accept-Ranges'', [''bytes'']), (''Content-Length'', [''131072''])]
              (replicate 65536 0)"
  let ?u = "''http://host/movie.mkv''"
  have l: "readChunks (local_world (replicate 131072 0)) ''movie.mkv'' OSDBChunkSize spans
     = ([Acquire (FileHandle ''movie.mkv''), PRead 0 65536, PRead 65536 65536],
        Ok (131072, replicate 131072 0))"
    using zero_file_spans[of 131072] by simp
  have a: "snd (readChunks (local_world (replicate 131072 0)) ''movie.mkv'' OSDBChunkSize spans)
     = Ok (131072, replicate 131072 0)" by (simp add: l)
  have b: "unreleased (fst (readChunks (local_world (replicate 131072 0)) ''movie.mkv'' OSDBChunkSize spans))
     = [FileHandle ''movie.mkv'']" by (simp add: l unreleased_def)
  have c: "snd (readChunks ?r ?u OSDBChunkSize spans) = Ok (131072, replicate 131072 0)"
    by (rule remote_zero_spans) (simp_all add: ParseInt_131072 OSDBChunkSize_def)
  have f: "\<And>off. fetch_ok ?r ?u off 65536" by (rule remote_world_fetch_ok) simp
  have s: "source_size ?r ?u = Some 131072" by (rule remote_world_size) (rule ParseInt_131072)
  have nb: "\<not> (131072 :: int64) <s OSDBChunkSize" by (simp add: OSDBChunkSize_def)
  have d: "unreleased (fst (readChunks ?r ?u OSDBChunkSize spans))
     = [ResponseBody (Request ''HEAD'' ?u [])]"
    by (simp add: readChunks_remote_spans[OF s movie_url_remote nb f f] unreleased_def
        range_request_def)
  from a b c d show ?thesis by blast
qed

end
